theory Spec2Isabelle
  imports Main "HOL-Library.Word"
begin

unbundle bit_operations_syntax

section \<open>liboath/hotp.c: the HOTP algorithm\<close>

text \<open>
  The C types are those of an LP64 platform: \<open>unsigned\<close> and \<open>int\<close> are 32 bits wide,
  \<open>size_t\<close>, \<open>long\<close> and \<open>uint64_t\<close> are 64 bits wide, a \<open>char\<close> is one byte.
  A C string is a \<open>string\<close> without the terminating NUL.

  The return codes used by \<open>hotp.c\<close>. \<open>OATH_OK\<close> is the \<open>Inr\<close> side of a result.
\<close>

type_synonym byte = "8 word"

datatype oath_rc =
    OATH_CRYPTO_ERROR
  | OATH_INVALID_DIGITS
  | OATH_PRINTF_ERROR
  | OATH_INVALID_OTP

subsection \<open>oath_hotp_generate\<close>

text \<open>
  \<open>counter[i] = (moving_factor >> ((sizeof (moving_factor) - i - 1) * 8)) & 0xFF\<close>
  for \<open>i = 0 .. 7\<close>.
\<close>

definition counter_bytes :: "64 word \<Rightarrow> byte list" where
  "counter_bytes moving_factor =
     map (\<lambda>i. ucast (drop_bit ((8 - i - 1) * 8) moving_factor AND 0xFF)) [0..<8]"

text \<open>
  Integer promotion of a \<open>char\<close> of the digest buffer \<open>hs\<close> to \<open>int\<close>. The \<open>char\<close> is
  taken as signed (sign extension); every use below masks the promoted value, so an
  unsigned \<open>char\<close> gives the same results.
\<close>

definition int_of_char :: "byte \<Rightarrow> 32 word" where
  "int_of_char c = scast c"

text \<open>
  The dynamic truncation: \<open>offset = hs[sizeof (hs) - 1] & 0x0f\<close> (a \<open>uint8_t\<close>), then
  \<open>S = ((hs[offset] & 0x7f) << 24) | ((hs[offset + 1] & 0xff) << 16)
      | ((hs[offset + 2] & 0xff) << 8) | (hs[offset + 3] & 0xff)\<close>,
  computed in \<open>int\<close> and stored in the \<open>long S\<close>.
\<close>

definition truncate_hs :: "byte list \<Rightarrow> int" where
  "truncate_hs hs =
     (let offset = unat (ucast (int_of_char (hs ! 19) AND 0x0f) :: 8 word)
      in sint (push_bit 24 (int_of_char (hs ! offset) AND 0x7f)
             OR push_bit 16 (int_of_char (hs ! (offset + 1)) AND 0xff)
             OR push_bit 8 (int_of_char (hs ! (offset + 2)) AND 0xff)
             OR (int_of_char (hs ! (offset + 3)) AND 0xff)))"

text \<open>The \<open>%\<close> of C: the remainder of the division that truncates towards zero.\<close>

definition c_rem :: "int \<Rightarrow> int \<Rightarrow> int" where
  "c_rem a b = sgn a * (\<bar>a\<bar> mod \<bar>b\<bar>)"

text \<open>
  \<open>printf\<close>'s conversion \<open>%.*ld\<close> with precision \<open>prec\<close>: the decimal digits of the
  value, with leading zeros up to at least \<open>prec\<close> digits, after a minus sign for a
  negative value. The value 0 has no digit of its own (precision 0 prints nothing).
\<close>

definition digit_char :: "nat \<Rightarrow> char" where
  "digit_char d = char_of (of_char (CHR ''0'') + d)"

fun digits_of :: "nat \<Rightarrow> string" where
  "digits_of n = (if n = 0 then [] else digits_of (n div 10) @ [digit_char (n mod 10)])"

declare digits_of.simps [simp del]

definition printf_ld :: "nat \<Rightarrow> int \<Rightarrow> string" where
  "printf_ld prec v =
     (let ds = digits_of (nat \<bar>v\<bar>)
      in (if v < 0 then ''-'' else []) @ replicate (prec - length ds) (CHR ''0'') @ ds)"

text \<open>
  \<open>len = snprintf (output_otp, digits + 1, "%.*ld", digits, S); output_otp[digits] = '\0';
  if (len != digits) return OATH_PRINTF_ERROR;\<close>
  \<open>snprintf\<close> stores at most \<open>digits\<close> characters and returns the length of the whole
  conversion.
\<close>

definition snprintf_otp :: "32 word \<Rightarrow> int \<Rightarrow> oath_rc + string" where
  "snprintf_otp digits S =
     (let str = printf_ld (unat digits) S;
          len = length str
      in if len \<noteq> unat digits then Inl OATH_PRINTF_ERROR
         else Inr (take (unat digits) str))"

text \<open>
  \<open>gc_hmac_sha1\<close> is the MAC of the crypto library, a parameter here: the key and the
  message give the digest written to \<open>hs\<close>, or \<open>None\<close> when the library reports a
  failure. \<open>add_checksum\<close> and \<open>truncation_offset\<close> are accepted and not read.
\<close>

type_synonym mac = "byte list \<Rightarrow> byte list \<Rightarrow> byte list option"

definition oath_hotp_generate ::
  "mac \<Rightarrow> byte list \<Rightarrow> 64 word \<Rightarrow> 32 word \<Rightarrow> bool \<Rightarrow> 64 word \<Rightarrow> oath_rc + string"
where
  "oath_hotp_generate gc_hmac_sha1 secret moving_factor digits add_checksum truncation_offset =
     (case gc_hmac_sha1 secret (counter_bytes moving_factor) of
        None \<Rightarrow> Inl OATH_CRYPTO_ERROR
      | Some hs \<Rightarrow>
          (let S = truncate_hs hs
           in if digits = 6 then snprintf_otp digits (c_rem S 1000000)
              else if digits = 7 then snprintf_otp digits (c_rem S 10000000)
              else if digits = 8 then snprintf_otp digits (c_rem S 100000000)
              else Inl OATH_INVALID_DIGITS))"

subsection \<open>oath_hotp_validate_callback and oath_hotp_validate\<close>

text \<open>\<open>strcmp\<close>: zero exactly on equal strings, else the sign of the first difference.\<close>

fun strcmp :: "string \<Rightarrow> string \<Rightarrow> int" where
  "strcmp [] [] = 0"
| "strcmp [] (y # ys) = - 1"
| "strcmp (x # xs) [] = 1"
| "strcmp (x # xs) (y # ys) =
     (if x = y then strcmp xs ys
      else if (of_char x :: nat) < of_char y then - 1 else 1)"

definition strcmp_callback :: "string \<Rightarrow> string \<Rightarrow> int" where
  "strcmp_callback handle test_otp = strcmp handle test_otp"

text \<open>
  Modelled from the spec: the header constant \<open>OATH_HOTP_DYNAMIC_TRUNCATION\<close> is not
  among the sources; it is the "dynamic" value of the truncation offset, which
  \<open>oath_hotp_generate\<close> never reads.
\<close>

definition OATH_HOTP_DYNAMIC_TRUNCATION :: "64 word" where
  "OATH_HOTP_DYNAMIC_TRUNCATION = - 1"

text \<open>
  The \<open>do ... while (window - iter++ > 0)\<close> loop, from the value \<open>iter\<close> on.
  \<open>iter\<close> is an \<open>unsigned\<close>, \<open>window\<close> a \<open>size_t\<close>: the sum \<open>start_moving_factor + iter\<close> and
  the difference \<open>window - iter\<close> are taken in 64 bits, the increment wraps at 32 bits.
  The function returns an \<open>int\<close>: \<open>Inr (sint iter)\<close> is what \<open>return iter\<close> hands the
  caller. A loop that never leaves is the value \<open>None\<close>.
\<close>

partial_function (option) validate_loop ::
  "mac \<Rightarrow> byte list \<Rightarrow> 64 word \<Rightarrow> 64 word \<Rightarrow> 32 word \<Rightarrow> (string \<Rightarrow> int) \<Rightarrow> 32 word
     \<Rightarrow> (oath_rc + int) option"
where
  "validate_loop gc_hmac_sha1 secret start_moving_factor window digits oath_strcmp iter =
     (case oath_hotp_generate gc_hmac_sha1 secret (start_moving_factor + ucast iter) digits
             False OATH_HOTP_DYNAMIC_TRUNCATION of
        Inl rc \<Rightarrow> Some (Inl rc)
      | Inr tmp_otp \<Rightarrow>
          if oath_strcmp tmp_otp = 0 then Some (Inr (sint iter))
          else if window - ucast iter \<noteq> 0
          then validate_loop gc_hmac_sha1 secret start_moving_factor window digits oath_strcmp
                 (iter + 1)
          else Some (Inl OATH_INVALID_OTP))"

definition oath_hotp_validate_callback ::
  "mac \<Rightarrow> byte list \<Rightarrow> 64 word \<Rightarrow> 64 word \<Rightarrow> 32 word \<Rightarrow> (string \<Rightarrow> int)
     \<Rightarrow> (oath_rc + int) option"
where
  "oath_hotp_validate_callback gc_hmac_sha1 secret start_moving_factor window digits oath_strcmp =
     validate_loop gc_hmac_sha1 secret start_moving_factor window digits oath_strcmp 0"

text \<open>\<open>digits\<close> is \<open>strlen (otp)\<close>, converted from \<open>size_t\<close> to \<open>unsigned\<close>.\<close>

definition oath_hotp_validate ::
  "mac \<Rightarrow> byte list \<Rightarrow> 64 word \<Rightarrow> 64 word \<Rightarrow> string \<Rightarrow> (oath_rc + int) option"
where
  "oath_hotp_validate gc_hmac_sha1 secret start_moving_factor window otp =
     oath_hotp_validate_callback gc_hmac_sha1 secret start_moving_factor window
       (of_nat (length otp)) (strcmp_callback otp)"

section \<open>libhotp/usersfile.c: the credential file\<close>

text \<open>
  Modelled from the spec: the enumeration \<open>hotp_rc\<close> of \<open>hotp.h\<close> is not among the sources.
  Its members are the codes that \<open>usersfile.c\<close> names and, for what \<open>hotp_hex2bin\<close> and
  \<open>hotp_validate_otp\<close> hand through, the codes of the spec's error taxonomy.
\<close>

datatype hotp_rc =
    HOTP_OK
  | HOTP_CRYPTO_ERROR
  | HOTP_INVALID_DIGITS
  | HOTP_PRINTF_ERROR
  | HOTP_INVALID_HEX
  | HOTP_INVALID_OTP
  | HOTP_REPLAYED_OTP
  | HOTP_BAD_PASSWORD
  | HOTP_INVALID_COUNTER
  | HOTP_INVALID_TIMESTAMP
  | HOTP_NO_SUCH_FILE
  | HOTP_UNKNOWN_USER
  | HOTP_FILE_SEEK_ERROR
  | HOTP_FILE_CREATE_ERROR
  | HOTP_FILE_LOCK_ERROR
  | HOTP_FILE_RENAME_ERROR
  | HOTP_FILE_UNLINK_ERROR
  | HOTP_TIME_ERROR

subsection \<open>What the file's functions call\<close>

text \<open>
  The functions of \<open>usersfile.c\<close> call the C library, the operating system and two
  functions of \<open>libhotp\<close> whose files are not among the sources. They are the fields of
  an environment:
  \<^item> \<open>hotp_hex2bin p n\<close>: the return code and the bytes decoded from the hex string \<open>p\<close>
    into a buffer of \<open>n\<close> bytes;
  \<^item> \<open>hotp_validate_otp secret start_moving_factor window otp\<close>: an \<open>int\<close> in C, negative
    for an error code (\<open>Inl\<close>), else the position found in the window (\<open>Inr\<close>);
  \<^item> \<open>strptime p\<close> with the format \<open>time_format_string\<close>: \<open>None\<close> for \<open>NULL\<close>, else the
    broken-down time and the unparsed rest of \<open>p\<close>; \<open>mktime\<close> of that time with
    \<open>tm_isdst = -1\<close>;
  \<^item> \<open>time_now\<close>, the value of \<open>time (&t)\<close>; \<open>localtime_r\<close>; \<open>strftime now\<close>, the whole
    conversion of \<open>now\<close> with \<open>time_format_string\<close>;
  \<^item> whether \<open>fseek\<close>, the two \<open>asprintf\<close>, the two \<open>fopen (..., "w")\<close>, the \<open>fcntl\<close> lock
    (after its retries on \<open>EINTR\<close>), \<open>rename\<close> and \<open>unlink\<close> succeed, and whether the
    \<open>n\<close>-th call of \<open>fputs\<close> or \<open>fprintf\<close> on the output file returns a positive value;
  \<^item> \<open>fclose_flushed out\<close>: the output stream is buffered, and \<open>out\<close> is what the calls
    that returned a positive value have put into it; of these characters,
    \<open>fclose_flushed out\<close> many are in the new file when \<open>fclose (outfh)\<close> has returned. A
    flush that fails (a full disk, an I/O error) leaves the rest unwritten, and
    \<open>update_usersfile\<close> does not look at the result of \<open>fclose\<close>.
\<close>

record 'tm env =
  hotp_hex2bin :: "string \<Rightarrow> nat \<Rightarrow> hotp_rc \<times> byte list"
  hotp_validate_otp :: "byte list \<Rightarrow> 64 word \<Rightarrow> 64 word \<Rightarrow> string \<Rightarrow> hotp_rc + nat"
  strptime :: "string \<Rightarrow> ('tm \<times> string) option"
  mktime :: "'tm \<Rightarrow> int"
  time_now :: int
  localtime_r :: "int \<Rightarrow> 'tm option"
  strftime :: "'tm \<Rightarrow> string"
  fseek_ok :: bool
  asprintf_lock_ok :: bool
  fopen_lock_ok :: bool
  fcntl_ok :: bool
  asprintf_new_ok :: bool
  fopen_new_ok :: bool
  write_ok :: "nat \<Rightarrow> bool"
  fclose_flushed :: "string \<Rightarrow> nat"
  rename_ok :: bool
  unlink_ok :: bool

text \<open>The files: a path has a content or does not exist.\<close>

type_synonym fs = "string \<rightharpoonup> string"

subsection \<open>Lines and tokens\<close>

text \<open>
  \<open>getline\<close> returns the characters up to and including the next newline, or the rest
  of the file when it has no further newline; \<open>file_lines\<close> is the sequence of its
  results up to the end of the file.
\<close>

fun file_lines :: "string \<Rightarrow> string list" where
  "file_lines [] = []"
| "file_lines (c # cs) =
     (if c = CHR 0x0A then [c] # file_lines cs
      else (case file_lines cs of [] \<Rightarrow> [[c]] | l # ls \<Rightarrow> (c # l) # ls))"

text \<open>
  The line buffer read as a C string (by \<open>strdup\<close>, \<open>strtok_r\<close>, \<open>fputs\<close>): it ends before
  the first NUL.
\<close>

definition c_str :: "string \<Rightarrow> string" where
  "c_str buf = takeWhile (\<lambda>c. c \<noteq> CHR 0x00) buf"

text \<open>\<open>whitespace = " \t\r\n"\<close>.\<close>

definition whitespace :: string where
  "whitespace = [CHR 0x20, CHR 0x09, CHR 0x0D, CHR 0x0A]"

text \<open>
  \<open>strtok_r (s, whitespace, &saveptr)\<close>: skip the delimiters in front; \<open>NULL\<close> when
  nothing is left; else the token runs up to the next delimiter, and \<open>saveptr\<close> is set
  behind that delimiter (or to the end of the string).
\<close>

definition strtok_r :: "string \<Rightarrow> (string \<times> string) option" where
  "strtok_r s =
     (let s' = dropWhile (\<lambda>c. c \<in> set whitespace) s
      in if s' = [] then None
         else Some (takeWhile (\<lambda>c. c \<notin> set whitespace) s',
                    drop 1 (dropWhile (\<lambda>c. c \<notin> set whitespace) s')))"

text \<open>
  The result of the call number \<open>n\<close> (from 0) in the sequence
  \<open>strtok_r (line, ...)\<close>, \<open>strtok_r (NULL, ...)\<close>, \<open>strtok_r (NULL, ...)\<close>, ... on one line.
\<close>

fun token_at :: "nat \<Rightarrow> string \<Rightarrow> string option" where
  "token_at 0 s = map_option fst (strtok_r s)"
| "token_at (Suc n) s = (case strtok_r s of None \<Rightarrow> None | Some (t, saveptr) \<Rightarrow> token_at n saveptr)"

declare token_at.simps [simp del]

subsection \<open>parse_type\<close>

definition parse_type :: "string \<Rightarrow> nat" where
  "parse_type str =
     (if strcmp str ''HOTP/E/6'' = 0 then 6
      else if strcmp str ''HOTP/E/7'' = 0 then 7
      else if strcmp str ''HOTP/E/8'' = 0 then 8
      else if strcmp str ''HOTP/E'' = 0 then 6
      else if strcmp str ''HOTP'' = 0 then 6
      else 0)"

subsection \<open>strtoull\<close>

text \<open>
  \<open>strtoull (nptr, &endptr, 10)\<close> of the C library: white space, an optional sign, then
  decimal digits. Without a digit nothing is converted and \<open>endptr\<close> is \<open>nptr\<close>. A value
  beyond \<open>ULLONG_MAX\<close> gives \<open>ULLONG_MAX\<close>; a minus sign negates the value in the
  unsigned type. The result is the value and the string \<open>endptr\<close> points to.
\<close>

definition isspace :: "char \<Rightarrow> bool" where
  "isspace c \<longleftrightarrow> c \<in> set [CHR 0x20, CHR 0x09, CHR 0x0A, CHR 0x0B, CHR 0x0C, CHR 0x0D]"

definition isdigit :: "char \<Rightarrow> bool" where
  "isdigit c \<longleftrightarrow> c \<in> set ''0123456789''"

definition digit_val :: "char \<Rightarrow> nat" where
  "digit_val c = of_char c - of_char (CHR ''0'')"

definition strtoull :: "string \<Rightarrow> 64 word \<times> string" where
  "strtoull nptr =
     (let s = dropWhile isspace nptr;
          neg = (case s of [] \<Rightarrow> False | c # r \<Rightarrow> c = CHR ''-'');
          s' = (case s of [] \<Rightarrow> s | c # r \<Rightarrow> if c = CHR ''-'' \<or> c = CHR ''+'' then r else s);
          ds = takeWhile isdigit s';
          endptr = dropWhile isdigit s';
          v = foldl (\<lambda>a c. 10 * a + digit_val c) 0 ds
      in if ds = [] then (0, nptr)
         else if 2 ^ 64 \<le> v then (- 1, endptr)
         else if neg then (- of_nat v, endptr)
         else (of_nat v, endptr))"

subsection \<open>parse_usersfile\<close>

text \<open>
  What the loop body has read from one line when it reaches the replay comparison:
  the digits of the type, the decoded secret, the start moving factor, the previous OTP
  (\<open>None\<close> for \<open>NULL\<close>) and the value written to \<open>*last_otp\<close> (\<open>None\<close> when nothing was
  written).
\<close>

record hotp_record =
  rec_digits :: nat
  rec_secret :: "byte list"
  rec_start_moving_factor :: "64 word"
  rec_prev_otp :: "string option"
  rec_last_otp :: "int option"

text \<open>
  The loop body from its first \<open>strtok_r\<close> to the end of the timestamp block: \<open>Skip\<close> is
  \<open>continue\<close>, \<open>Fail rc t\<close> is \<open>return rc\<close> after \<open>t\<close> was written to \<open>*last_otp\<close> (\<open>None\<close>:
  nothing written), \<open>Fields r\<close> is reaching the replay comparison. \<open>passwd\<close> is \<open>None\<close> for
  a \<open>NULL\<close> password, \<open>last_otp_wanted\<close> tells whether the pointer \<open>last_otp\<close> is not \<open>NULL\<close>.
\<close>

datatype line_result = Skip | Fail hotp_rc "int option" | Fields hotp_record

definition read_moving_factor :: "string option \<Rightarrow> hotp_rc + 64 word" where
  "read_moving_factor p =
     (case p of
        None \<Rightarrow> Inr 0
      | Some tok \<Rightarrow>
          if tok = [] then Inr 0
          else (let (ull, endptr) = strtoull tok
                in if endptr \<noteq> [] then Inl HOTP_INVALID_COUNTER else Inr ull))"

definition read_timestamp :: "'tm env \<Rightarrow> bool \<Rightarrow> string option \<Rightarrow> hotp_rc \<times> int option" where
  "read_timestamp env last_otp_wanted p =
     (case p of
        None \<Rightarrow> (HOTP_OK, None)
      | Some tok \<Rightarrow>
          (case strptime env tok of
             None \<Rightarrow> (HOTP_INVALID_TIMESTAMP, None)
           | Some (tm, t) \<Rightarrow>
               if t \<noteq> [] then (HOTP_INVALID_TIMESTAMP, None)
               else if last_otp_wanted
               then (if mktime env tm = - 1 then (HOTP_INVALID_TIMESTAMP, Some (mktime env tm))
                     else (HOTP_OK, Some (mktime env tm)))
               else (HOTP_OK, None)))"

definition read_fields :: "'tm env \<Rightarrow> string \<Rightarrow> string option \<Rightarrow> bool \<Rightarrow> string \<Rightarrow> line_result" where
  "read_fields env username passwd last_otp_wanted lineptr =
     (let line = c_str lineptr in
      case token_at 0 line of
        None \<Rightarrow> Skip
      | Some ty \<Rightarrow>
          let digits = parse_type ty in
          if digits = 0 then Skip
          else if token_at 1 line \<noteq> Some username then Skip
          else if passwd \<noteq> None \<and> token_at 2 line = None then Skip
          else if passwd \<noteq> None \<and> token_at 2 line = Some ''-'' then Fail HOTP_BAD_PASSWORD None
          else if passwd \<noteq> None \<and> token_at 2 line \<noteq> passwd then Fail HOTP_BAD_PASSWORD None
          else (case token_at 3 line of
                  None \<Rightarrow> Skip
                | Some key \<Rightarrow>
                    let (rc, secret) = hotp_hex2bin env key 20 in
                    if rc \<noteq> HOTP_OK then Fail rc None
                    else (case read_moving_factor (token_at 4 line) of
                            Inl rc \<Rightarrow> Fail rc None
                          | Inr start_moving_factor \<Rightarrow>
                              (case read_timestamp env last_otp_wanted (token_at 6 line) of
                                 (rc, t) \<Rightarrow>
                                   if rc \<noteq> HOTP_OK then Fail rc t
                                   else Fields \<lparr> rec_digits = digits, rec_secret = secret,
                                          rec_start_moving_factor = start_moving_factor,
                                          rec_prev_otp = token_at 5 line,
                                          rec_last_otp = t \<rparr>))))"

text \<open>
  The \<open>while (getline ...)\<close> loop over the lines still to read. The result is the return
  code, the value written to \<open>*last_otp\<close> and the value written to
  \<open>*new_moving_factor\<close> (\<open>None\<close>: not written).
\<close>

fun parse_usersfile ::
  "'tm env \<Rightarrow> string \<Rightarrow> string \<Rightarrow> 64 word \<Rightarrow> string option \<Rightarrow> bool \<Rightarrow> string list
     \<Rightarrow> hotp_rc \<times> int option \<times> 64 word option"
where
  "parse_usersfile env username otp window passwd last_otp_wanted [] =
     (HOTP_UNKNOWN_USER, None, None)"
| "parse_usersfile env username otp window passwd last_otp_wanted (lineptr # rest) =
     (case read_fields env username passwd last_otp_wanted lineptr of
        Skip \<Rightarrow> parse_usersfile env username otp window passwd last_otp_wanted rest
      | Fail rc t \<Rightarrow> (rc, t, None)
      | Fields r \<Rightarrow>
          if rec_prev_otp r \<noteq> None \<and> strcmp (the (rec_prev_otp r)) otp = 0
          then (HOTP_REPLAYED_OTP, rec_last_otp r, None)
          else (case hotp_validate_otp env (rec_secret r) (rec_start_moving_factor r) window otp of
                  Inl rc \<Rightarrow> (rc, rec_last_otp r, None)
                | Inr pos \<Rightarrow>
                    (HOTP_OK, rec_last_otp r, Some (rec_start_moving_factor r + of_nat pos))))"

subsection \<open>update_usersfile2\<close>

text \<open>\<open>%llu\<close>: the decimal digits of the value, \<open>0\<close> for zero.\<close>

definition printf_llu :: "64 word \<Rightarrow> string" where
  "printf_llu v = (if v = 0 then ''0'' else digits_of (unat v))"

text \<open>
  The line that \<open>fprintf (outfh, "%s\t%s\t%s\t%s\t%llu\t%s\t%s\n", ...)\<close> writes for a line
  of the input.
\<close>

definition record_line :: "string \<Rightarrow> string \<Rightarrow> string \<Rightarrow> 64 word \<Rightarrow> string \<Rightarrow> string" where
  "record_line username otp timestamp new_moving_factor line =
     (let type = the (token_at 0 line);
          passwd = (case token_at 2 line of None \<Rightarrow> ''-'' | Some p \<Rightarrow> p);
          secret = (case token_at 3 line of None \<Rightarrow> ''-'' | Some k \<Rightarrow> k)
      in type @ [CHR 0x09] @ username @ [CHR 0x09] @ passwd @ [CHR 0x09] @ secret @ [CHR 0x09]
         @ printf_llu new_moving_factor @ [CHR 0x09] @ otp @ [CHR 0x09] @ timestamp @ [CHR 0x0A])"

text \<open>
  The loop over the lines still to read; \<open>n\<close> counts the calls of \<open>fputs\<close> and \<open>fprintf\<close>
  so far, \<open>out\<close> is what they wrote. The result is the return code and the content of
  the output file.
\<close>

fun update_usersfile2 ::
  "'tm env \<Rightarrow> string \<Rightarrow> string \<Rightarrow> string \<Rightarrow> 64 word \<Rightarrow> string list \<Rightarrow> nat \<Rightarrow> string
     \<Rightarrow> hotp_rc \<times> string"
where
  "update_usersfile2 env username otp timestamp new_moving_factor [] n out = (HOTP_OK, out)"
| "update_usersfile2 env username otp timestamp new_moving_factor (lineptr # rest) n out =
     (let origline = c_str lineptr; line = c_str lineptr in
      if token_at 0 line = None
      then update_usersfile2 env username otp timestamp new_moving_factor rest n out
      else if token_at 1 line \<noteq> Some username
      then (if \<not> write_ok env n then (HOTP_PRINTF_ERROR, out)
            else update_usersfile2 env username otp timestamp new_moving_factor rest (Suc n)
                   (out @ origline))
      else (if \<not> write_ok env n then (HOTP_PRINTF_ERROR, out)
            else update_usersfile2 env username otp timestamp new_moving_factor rest (Suc n)
                   (out @ record_line username otp timestamp new_moving_factor line)))"

subsection \<open>update_usersfile\<close>

text \<open>
  \<open>infh_lines\<close> are the lines of the input file, read again from its start after the
  \<open>fseek\<close>. \<open>fopen (..., "w")\<close> creates or empties a file, \<open>fclose (outfh)\<close> leaves in the
  new file the part of the output that was flushed, \<open>rename\<close> moves the new file onto
  the credential file, \<open>unlink\<close> removes the lock file. The result is the return code
  and the files afterwards.
\<close>

definition update_usersfile ::
  "'tm env \<Rightarrow> fs \<Rightarrow> string \<Rightarrow> string \<Rightarrow> string \<Rightarrow> string list \<Rightarrow> string \<Rightarrow> 64 word
     \<Rightarrow> hotp_rc \<times> fs"
where
  "update_usersfile env files usersfile username otp infh_lines timestamp new_moving_factor =
     (let lockfile = usersfile @ ''.lock''; newfilename = usersfile @ ''.new'' in
      if \<not> fseek_ok env then (HOTP_FILE_SEEK_ERROR, files)
      else if \<not> asprintf_lock_ok env then (HOTP_PRINTF_ERROR, files)
      else if \<not> fopen_lock_ok env then (HOTP_FILE_CREATE_ERROR, files)
      else let files1 = files(lockfile \<mapsto> []) in
      if \<not> fcntl_ok env then (HOTP_FILE_LOCK_ERROR, files1)
      else if \<not> asprintf_new_ok env then (HOTP_PRINTF_ERROR, files1)
      else if \<not> fopen_new_ok env then (HOTP_FILE_CREATE_ERROR, files1)
      else let (rc, out) = update_usersfile2 env username otp timestamp new_moving_factor
                             infh_lines 0 [];
               stored = take (fclose_flushed env out) out;
               files2 = files1(newfilename \<mapsto> stored);
               files3 = (if rename_ok env then (files2(usersfile \<mapsto> stored))(newfilename := None)
                         else files2);
               files4 = (if unlink_ok env then files3(lockfile := None) else files3)
           in if \<not> rename_ok env then (HOTP_FILE_RENAME_ERROR, files4)
              else if \<not> unlink_ok env then (HOTP_FILE_UNLINK_ERROR, files4)
              else (rc, files4))"

subsection \<open>hotp_authenticate_usersfile\<close>

text \<open>
  The result is the return code, the value written to \<open>*last_otp\<close> and the files
  afterwards. \<open>parse_usersfile\<close> returns \<open>HOTP_OK\<close> only with \<open>new_moving_factor\<close> written.
\<close>

definition hotp_authenticate_usersfile ::
  "'tm env \<Rightarrow> fs \<Rightarrow> string \<Rightarrow> string \<Rightarrow> string \<Rightarrow> 64 word \<Rightarrow> string option \<Rightarrow> bool
     \<Rightarrow> hotp_rc \<times> int option \<times> fs"
where
  "hotp_authenticate_usersfile env files usersfile username otp window passwd last_otp_wanted =
     (case files usersfile of
        None \<Rightarrow> (HOTP_NO_SUCH_FILE, None, files)
      | Some content \<Rightarrow>
          (case parse_usersfile env username otp window passwd last_otp_wanted
                  (file_lines content) of
             (rc, last_otp, new_moving_factor) \<Rightarrow>
               if rc = HOTP_OK then
                 (if time_now env = - 1 then (HOTP_TIME_ERROR, last_otp, files)
                  else (case localtime_r env (time_now env) of
                          None \<Rightarrow> (HOTP_TIME_ERROR, last_otp, files)
                        | Some now \<Rightarrow>
                            let timestamp = strftime env now;
                                l = (if length timestamp < 30 then length timestamp else 0)
                            in if l \<noteq> 20 then (HOTP_TIME_ERROR, last_otp, files)
                               else (case update_usersfile env files usersfile username otp
                                            (file_lines content) timestamp
                                            (the new_moving_factor) of
                                       (rc, files') \<Rightarrow> (rc, last_otp, files'))))
               else (rc, last_otp, files)))"

section \<open>Notions for the statements\<close>

subsection \<open>The specification's words for the truncation\<close>

text \<open>
  The offset is the low nibble of the last digest byte; the four bytes from there, the
  top bit of the first one cleared, are read as a big-endian number; the OTP is the
  number's remainder modulo \<open>10 ^ digits\<close>, written with exactly \<open>digits\<close> decimal
  characters: character \<open>i\<close> is the decimal digit of weight \<open>10 ^ (digits - 1 - i)\<close>.
\<close>

definition big_endian :: "byte list \<Rightarrow> nat" where
  "big_endian bs = foldl (\<lambda>acc b. 256 * acc + unat b) 0 bs"

definition S_spec :: "byte list \<Rightarrow> nat" where
  "S_spec digest =
     (let dynOffset = unat (digest ! 19 AND 0x0F);
          bs = take 4 (drop dynOffset digest)
      in big_endian ((hd bs AND 0x7F) # tl bs))"

definition otp_string_spec :: "nat \<Rightarrow> nat \<Rightarrow> string" where
  "otp_string_spec digits v =
     map (\<lambda>i. digit_char (v div 10 ^ (digits - 1 - i) mod 10)) [0..<digits]"

subsection \<open>Auxiliary notions for the statements about hotp.c\<close>

text \<open>The padded rendering, as a function of its own for the proofs.\<close>

definition zero_pad :: "nat \<Rightarrow> nat \<Rightarrow> string" where
  "zero_pad d v = replicate (d - length (digits_of v)) (CHR ''0'') @ digits_of v"

text \<open>
  The OTP generated for the counter \<open>start + j\<close>, and the search going on after the
  first \<open>k\<close> counters: each of them generated an OTP and the comparison did not
  report a match for it.
\<close>

abbreviation (input) gen_at where
  "gen_at mac secret start digits j \<equiv>
     oath_hotp_generate mac secret (start + of_nat j) digits False OATH_HOTP_DYNAMIC_TRUNCATION"

definition keeps_searching :: "mac \<Rightarrow> byte list \<Rightarrow> 64 word \<Rightarrow> 32 word \<Rightarrow> (string \<Rightarrow> int) \<Rightarrow> nat \<Rightarrow> bool" where
  "keeps_searching mac secret start digits cmp k \<longleftrightarrow>
     (\<forall>j<k. case gen_at mac secret start digits j of Inl rc \<Rightarrow> False | Inr otp \<Rightarrow> cmp otp \<noteq> 0)"


text \<open>
  A MAC for concrete runs: on the secret and the counters 0 and 1 of RFC 4226, Appendix D,
  it returns the HMAC-SHA-1 values tabulated there, and fails elsewhere.
\<close>

definition rfc4226_secret :: "byte list" where
  "rfc4226_secret =
     [0x31, 0x32, 0x33, 0x34, 0x35, 0x36, 0x37, 0x38, 0x39, 0x30,
      0x31, 0x32, 0x33, 0x34, 0x35, 0x36, 0x37, 0x38, 0x39, 0x30]"

definition rfc4226_digest_0 :: "byte list" where
  "rfc4226_digest_0 =
     [0xcc, 0x93, 0xcf, 0x18, 0x50, 0x8d, 0x94, 0x93, 0x4c, 0x64,
      0xb6, 0x5d, 0x8b, 0xa7, 0x66, 0x7f, 0xb7, 0xcd, 0xe4, 0xb0]"

definition rfc4226_digest_1 :: "byte list" where
  "rfc4226_digest_1 =
     [0x75, 0xa4, 0x8a, 0x19, 0xd4, 0xcb, 0xe1, 0x00, 0x64, 0x4e,
      0x8a, 0xc1, 0x39, 0x7e, 0xea, 0x74, 0x7a, 0x2d, 0x33, 0xab]"

definition rfc4226_digest_2 :: "byte list" where
  "rfc4226_digest_2 =
     [0x0b, 0xac, 0xb7, 0xfa, 0x08, 0x2f, 0xef, 0x30, 0x78, 0x22,
      0x11, 0x93, 0x8b, 0xc1, 0xc5, 0xe7, 0x04, 0x16, 0xff, 0x44]"

definition rfc4226_mac :: mac where
  "rfc4226_mac key msg =
     (if key = rfc4226_secret \<and> msg = [0, 0, 0, 0, 0, 0, 0, 0] then Some rfc4226_digest_0
      else if key = rfc4226_secret \<and> msg = [0, 0, 0, 0, 0, 0, 0, 1] then Some rfc4226_digest_1
      else if key = rfc4226_secret \<and> msg = [0, 0, 0, 0, 0, 0, 0, 2] then Some rfc4226_digest_2
      else None)"

text \<open>
  Two MACs that show what the search does when OTPs repeat or the window is wide:
  one with a constant digest, one whose digest changes with bit 31 of the counter.
\<close>

definition zero_mac :: mac where
  "zero_mac key msg = Some (replicate 20 0)"

definition wrap_mac :: mac where
  "wrap_mac key msg = Some ([0, 0, 0, if msg ! 4 < 0x80 then 0 else 1] @ replicate 16 0)"

text \<open>
  The number of counters \<open>start, start + 1, ...\<close> below \<open>start + k\<close> passed before the
  first one whose OTP is \<open>otp\<close>: the lowest offset below \<open>k\<close> that generates \<open>otp\<close>, or
  \<open>k\<close> when none does.
\<close>

definition first_match :: "mac \<Rightarrow> byte list \<Rightarrow> 64 word \<Rightarrow> 32 word \<Rightarrow> string \<Rightarrow> nat \<Rightarrow> nat" where
  "first_match hmac secret start digits otp k =
     length (takeWhile (\<lambda>j. gen_at hmac secret start digits j \<noteq> Inr otp) [0..<k])"



subsection \<open>Notions for the statements about usersfile.c\<close>

text \<open>
  The lines that \<open>parse_usersfile\<close> does not skip: the type token is recognized, the
  username token is the user's, and the secret token is there; when a password is given,
  the password token must be there, and a password token that is rejected ends the
  scan before the secret token is looked for.
\<close>

definition is_record_line :: "string \<Rightarrow> string option \<Rightarrow> string \<Rightarrow> bool" where
  "is_record_line username passwd lineptr \<longleftrightarrow>
     (case token_at 0 (c_str lineptr) of None \<Rightarrow> False | Some ty \<Rightarrow> parse_type ty \<noteq> 0) \<and>
     token_at 1 (c_str lineptr) = Some username \<and>
     (case passwd of
        None \<Rightarrow> token_at 3 (c_str lineptr) \<noteq> None
      | Some pw \<Rightarrow>
          (case token_at 2 (c_str lineptr) of
             None \<Rightarrow> False
           | Some p \<Rightarrow> p = ''-'' \<or> p \<noteq> pw \<or> token_at 3 (c_str lineptr) \<noteq> None))"

text \<open>
  The password check lets the line pass: no password was given, or the password token
  is the given password and not \<open>-\<close>.
\<close>

definition password_accepted :: "string option \<Rightarrow> string \<Rightarrow> bool" where
  "password_accepted passwd lineptr \<longleftrightarrow>
     (case passwd of
        None \<Rightarrow> True
      | Some pw \<Rightarrow> token_at 2 (c_str lineptr) = Some pw \<and> pw \<noteq> ''-'')"

text \<open>
  What \<open>update_usersfile2\<close> writes for one line of the input when the write succeeds.
\<close>

definition rewrite_line :: "string \<Rightarrow> string \<Rightarrow> string \<Rightarrow> 64 word \<Rightarrow> string \<Rightarrow> string" where
  "rewrite_line username otp timestamp new_moving_factor lineptr =
     (if token_at 0 (c_str lineptr) = None then []
      else if token_at 1 (c_str lineptr) = Some username
      then record_line username otp timestamp new_moving_factor (c_str lineptr)
      else c_str lineptr)"


text \<open>
  What the timestamp block of \<open>parse_usersfile\<close> accepts, and the value \<open>t\<close> it writes to
  \<open>*last_otp\<close> (\<open>None\<close>: nothing): there is no timestamp token, or \<open>strptime\<close> reads the
  token to its end and, when the caller asked for the time, \<open>mktime\<close> does not return
  \<open>-1\<close>.
\<close>

definition timestamp_accepted :: "'tm env \<Rightarrow> bool \<Rightarrow> string \<Rightarrow> int option \<Rightarrow> bool" where
  "timestamp_accepted env last_otp_wanted lineptr t \<longleftrightarrow>
     (case token_at 6 (c_str lineptr) of
        None \<Rightarrow> t = None
      | Some ts \<Rightarrow>
          (case strptime env ts of
             None \<Rightarrow> False
           | Some (tm, rest) \<Rightarrow>
               rest = [] \<and>
               (if last_otp_wanted then mktime env tm \<noteq> - 1 \<and> t = Some (mktime env tm)
                else t = None)))"


subsection \<open>A credential file for concrete runs\<close>

text \<open>
  An environment in which every call succeeds and every flush is complete: the hex decoder knows the RFC 4226
  secret, the validator finds the OTP of counter 2 (\<open>359152\<close>) at position 1 of a window
  of at least 1, as it is for the start counter 1, and no other OTP; a timestamp is
  valid when it has 20 characters, and the broken-down time is its text.
\<close>

definition demo_env :: "string env" where
  "demo_env = \<lparr>
     hotp_hex2bin = (\<lambda>p n. if p = ''3132333435363738393031323334353637383930''
                           then (HOTP_OK, rfc4226_secret) else (HOTP_INVALID_HEX, [])),
     hotp_validate_otp = (\<lambda>secret start window otp.
        if secret = rfc4226_secret \<and> otp = ''359152'' \<and> 1 \<le> unat window
        then Inr 1 else Inl HOTP_INVALID_OTP),
     strptime = (\<lambda>p. if length p = 20 then Some (p, []) else None),
     mktime = (\<lambda>tm. 1254312000),
     time_now = 1254355200,
     localtime_r = (\<lambda>t. Some ''2009-10-01T00:00:00L''),
     strftime = (\<lambda>tm. tm),
     fseek_ok = True, asprintf_lock_ok = True, fopen_lock_ok = True, fcntl_ok = True,
     asprintf_new_ok = True, fopen_new_ok = True, write_ok = (\<lambda>n. True),
     fclose_flushed = length, rename_ok = True, unlink_ok = True \<rparr>"

text \<open>
  The lines of the file: a comment, the record of \<open>alice\<close> (counter 1, last OTP
  \<open>287082\<close>), a record of \<open>bob\<close>; the record of \<open>alice\<close> after a successful
  authentication with \<open>359152\<close>; further lines for \<open>alice\<close>: with the highest counter and
  what it becomes, with a malformed timestamp, without a secret, with a malformed
  counter, without a counter; a
  blank line; a line with another type token that names \<open>alice\<close>, and what it becomes.
\<close>

definition demo_comment :: string where
  "demo_comment = ''# users'' @ [CHR 0x0A]"

definition demo_alice :: string where
  "demo_alice = ''HOTP'' @ [CHR 0x09] @ ''alice'' @ [CHR 0x09] @ ''-'' @ [CHR 0x09]
     @ ''3132333435363738393031323334353637383930'' @ [CHR 0x09] @ ''1'' @ [CHR 0x09]
     @ ''287082'' @ [CHR 0x09] @ ''2009-09-30T12:00:00L'' @ [CHR 0x0A]"

definition demo_bob :: string where
  "demo_bob = ''HOTP bob - 00'' @ [CHR 0x0A]"

definition demo_content :: string where
  "demo_content = demo_comment @ demo_alice @ demo_bob"

definition demo_alice_after :: string where
  "demo_alice_after = ''HOTP'' @ [CHR 0x09] @ ''alice'' @ [CHR 0x09] @ ''-'' @ [CHR 0x09]
     @ ''3132333435363738393031323334353637383930'' @ [CHR 0x09] @ ''2'' @ [CHR 0x09]
     @ ''359152'' @ [CHR 0x09] @ ''2009-10-01T00:00:00L'' @ [CHR 0x0A]"



definition demo_stale :: string where
  "demo_stale = ''HOTP alice - 3132333435363738393031323334353637383930 1 287082 yesterday''
     @ [CHR 0x0A]"

definition demo_short :: string where
  "demo_short = ''HOTP alice'' @ [CHR 0x0A]"

definition demo_garbage :: string where
  "demo_garbage = ''HOTP alice - 3132333435363738393031323334353637383930 12a'' @ [CHR 0x0A]"

definition demo_fresh :: string where
  "demo_fresh = ''HOTP alice - 3132333435363738393031323334353637383930'' @ [CHR 0x0A]"

definition demo_blank :: string where
  "demo_blank = [CHR 0x0A]"

definition demo_other :: string where
  "demo_other = ''#disabled alice - 00 7'' @ [CHR 0x0A]"

definition demo_other_after :: string where
  "demo_other_after = ''#disabled'' @ [CHR 0x09] @ ''alice'' @ [CHR 0x09] @ ''-'' @ [CHR 0x09]
     @ ''00'' @ [CHR 0x09] @ ''2'' @ [CHR 0x09]
     @ ''359152'' @ [CHR 0x09] @ ''2009-10-01T00:00:00L'' @ [CHR 0x0A]"


section \<open>Proofs for hotp.c\<close>

subsection \<open>Decimal rendering\<close>

lemma digit_char_0: "digit_char 0 = CHR ''0''"
  by (simp add: digit_char_def char_of_def bit_simps)

lemma digits_of_0: "digits_of 0 = []"
  by (simp add: digits_of.simps)

lemma digits_of_pos: "0 < n \<Longrightarrow> digits_of n = digits_of (n div 10) @ [digit_char (n mod 10)]"
  by (subst digits_of.simps) simp

lemma length_digits_of: "n < 10 ^ d \<Longrightarrow> length (digits_of n) \<le> d"
proof (induction d arbitrary: n)
  case 0
  then show ?case by (simp add: digits_of_0)
next
  case (Suc d)
  show ?case
  proof (cases "n = 0")
    case True
    then show ?thesis by (simp add: digits_of_0)
  next
    case False
    from Suc.prems have "n div 10 < 10 ^ d" by (simp add: less_mult_imp_div_less mult.commute)
    then have "length (digits_of (n div 10)) \<le> d" by (rule Suc.IH)
    with False show ?thesis by (simp add: digits_of_pos)
  qed
qed

lemma zero_pad_Suc:
  assumes "v < 10 ^ Suc d"
  shows "zero_pad (Suc d) v = zero_pad d (v div 10) @ [digit_char (v mod 10)]"
proof (cases "v = 0")
  case True
  then show ?thesis
    by (simp add: zero_pad_def digits_of_0 digit_char_0 replicate_append_same)
next
  case False
  from assms have "v div 10 < 10 ^ d" by (simp add: less_mult_imp_div_less mult.commute)
  then have "length (digits_of (v div 10)) \<le> d" by (rule length_digits_of)
  with False show ?thesis by (simp add: zero_pad_def digits_of_pos Suc_diff_le)
qed

lemma otp_string_spec_Suc:
  "otp_string_spec (Suc d) v = otp_string_spec d (v div 10) @ [digit_char (v mod 10)]"
proof -
  have "v div 10 ^ (d - i) = v div 10 div 10 ^ (d - 1 - i)" if "i < d" for i
  proof -
    from that have "d - i = Suc (d - 1 - i)" by arith
    then show ?thesis by (simp add: div_mult2_eq)
  qed
  then show ?thesis by (simp add: otp_string_spec_def)
qed

lemma zero_pad_spec: "v < 10 ^ d \<Longrightarrow> zero_pad d v = otp_string_spec d v"
proof (induction d arbitrary: v)
  case 0
  then show ?case by (simp add: zero_pad_def otp_string_spec_def digits_of_0)
next
  case (Suc d)
  from Suc.prems have "v div 10 < 10 ^ d" by (simp add: less_mult_imp_div_less mult.commute)
  then have "zero_pad d (v div 10) = otp_string_spec d (v div 10)" by (rule Suc.IH)
  with Suc.prems show ?case by (simp add: zero_pad_Suc otp_string_spec_Suc)
qed

lemma length_otp_string_spec: "length (otp_string_spec d v) = d"
  by (simp add: otp_string_spec_def)

lemma printf_ld_nonneg:
  "0 \<le> v \<Longrightarrow> nat v < 10 ^ d \<Longrightarrow> printf_ld d v = otp_string_spec d (nat v)"
  using zero_pad_spec [of "nat v" d] by (simp add: printf_ld_def zero_pad_def)

lemma snprintf_otp_ok:
  "0 \<le> v \<Longrightarrow> nat v < 10 ^ unat digits \<Longrightarrow>
     snprintf_otp digits v = Inr (otp_string_spec (unat digits) (nat v))"
  by (simp add: snprintf_otp_def printf_ld_nonneg length_otp_string_spec)

lemma c_rem_nonneg: "0 \<le> a \<Longrightarrow> 0 < b \<Longrightarrow> c_rem a b = a mod b"
  by (cases "a = 0") (simp_all add: c_rem_def)


lemma mask_7f_int: "(0x7f :: 32 word) = mask 7" by (simp add: mask_eq_exp_minus_1)
lemma mask_ff_int: "(0xff :: 32 word) = mask 8" by (simp add: mask_eq_exp_minus_1)
lemma mask_0f_int: "(0x0f :: 32 word) = mask 4" by (simp add: mask_eq_exp_minus_1)
lemma mask_0F_byte: "(0x0F :: 8 word) = mask 4" by (simp add: mask_eq_exp_minus_1)
lemma mask_7F_byte: "(0x7F :: 8 word) = mask 7" by (simp add: mask_eq_exp_minus_1)

lemma bit_byte_less: "bit (c :: 8 word) n \<Longrightarrow> n < 8"
  by (drule bit_imp_le_length) simp

lemma int_of_char_ff: "int_of_char c AND 0xff = ucast c"
  unfolding mask_ff_int int_of_char_def
proof (rule bit_word_eqI)
  fix n assume "n < LENGTH(32)"
  consider "n < 7" | "n = 7" | "8 \<le> n" by arith
  then show "bit (scast c AND mask 8 :: 32 word) n = bit (ucast c :: 32 word) n"
    by cases (auto simp: bit_simps min_def dest: bit_byte_less)
qed

lemma int_of_char_7f: "int_of_char c AND 0x7f = ucast (c AND 0x7F)"
  unfolding mask_7f_int mask_7F_byte int_of_char_def by (rule bit_word_eqI) (auto simp: bit_simps)

lemma int_of_char_0f: "(ucast (int_of_char c AND 0x0f) :: 8 word) = c AND 0x0F"
  unfolding mask_0f_int mask_0F_byte int_of_char_def by (rule bit_word_eqI) (auto simp: bit_simps)

lemma unat_and_0F: "unat ((c :: 8 word) AND 0x0F) < 16"
  unfolding mask_0F_byte 
  by (simp add: unsigned_and_eq take_bit_eq_mod unat_mod flip: take_bit_eq_mask)

lemma uint_push_ucast:
  "k \<le> 24 \<Longrightarrow> uint (push_bit k (ucast (b :: 8 word)) :: 32 word) = push_bit k (uint b)"
  by (rule bit_eqI) (auto simp: bit_simps dest: bit_byte_less)

lemma uint_ucast_byte:
  "uint (ucast (b :: 8 word) :: 32 word) = uint b"
  by (rule bit_eqI) (auto simp: bit_simps dest: bit_byte_less)

lemma sint_compose:
  fixes b0 b1 b2 b3 :: "8 word"
  defines "W \<equiv> (push_bit 24 (ucast (b0 AND 0x7F)) OR push_bit 16 (ucast b1) OR push_bit 8 (ucast b2) OR ucast b3 :: 32 word)"
  shows "sint W = uint (b0 AND 0x7F) * 2^24 + uint b1 * 2 ^ 16 + uint b2 * 2 ^ 8 + uint b3"
proof -
  have nb: "\<not> bit W 31" unfolding W_def mask_7F_byte by (auto simp: bit_simps dest: bit_byte_less)
  have "take_bit 31 (uint W) = uint W"
  proof (rule bit_eqI)
    fix n
    have "bit W n \<Longrightarrow> n < 31"
    proof -
      assume b: "bit W n"
      then have "n < 32" by (auto dest: bit_imp_le_length)
      moreover have "n \<noteq> 31" using b nb by auto
      ultimately show "n < 31" by arith
    qed
    then show "bit (take_bit 31 (uint W)) n = bit (uint W) n"
      by (auto simp: bit_simps)
  qed
  then have 1: "sint W = uint W" using nb 
    by (simp add: sint_uint signed_take_bit_eq_if_positive bit_uint_iff)
  have 2: "uint W = push_bit 24 (uint (b0 AND 0x7F)) OR push_bit 16 (uint b1) OR push_bit 8 (uint b2) OR uint b3"
    unfolding W_def by (simp add: unsigned_or_eq uint_push_ucast uint_ucast_byte)
  define X where "X = push_bit 8 (uint b2) OR uint b3"
  define Y where "Y = push_bit 16 (uint b1) OR X"
  have 3: "X = push_bit 8 (uint b2) + uint b3"
    unfolding X_def
    by (rule disjunctive_add_eq_or[symmetric], rule bit_eqI) (auto simp: bit_simps dest: bit_byte_less)
  have 4: "Y = push_bit 16 (uint b1) + X"
    unfolding Y_def X_def
    by (rule disjunctive_add_eq_or[symmetric], rule bit_eqI) (auto simp: bit_simps dest: bit_byte_less)
  have 5: "push_bit 24 (uint (b0 AND 0x7F)) OR Y = push_bit 24 (uint (b0 AND 0x7F)) + Y"
    unfolding Y_def X_def mask_7F_byte
    by (rule disjunctive_add_eq_or[symmetric], rule bit_eqI) (auto simp: bit_simps dest: bit_byte_less)
  have "uint W = push_bit 24 (uint (b0 AND 0x7F)) OR Y"
    unfolding 2 Y_def X_def by (simp add: or.assoc)
  also have "\<dots> = push_bit 24 (uint (b0 AND 0x7F)) + Y" by (rule 5)
  also have "\<dots> = push_bit 24 (uint (b0 AND 0x7F)) + (push_bit 16 (uint b1) + (push_bit 8 (uint b2) + uint b3))"
    by (simp only: 4 3)
  finally show ?thesis unfolding 1 by (simp add: push_bit_eq_mult)
qed

lemma take4_drop:
  "n + 4 \<le> length xs \<Longrightarrow> take 4 (drop n xs) = [xs ! n, xs ! (n + 1), xs ! (n + 2), xs ! (n + 3)]"
  by (rule nth_equalityI) (auto simp: nth_Cons' less_Suc_eq numeral_eq_Suc add.commute)

lemma uint_and_7F: "uint ((c :: 8 word) AND 0x7F) < 128"
proof -
  have "uint (c AND mask 7) = take_bit 7 (uint c)"
    by (simp add: unsigned_take_bit_eq flip: take_bit_eq_mask)
  with take_bit_int_less_exp [of 7 "uint c"] show ?thesis by (simp add: mask_7F_byte)
qed

lemma uint_byte_less: "uint (c :: 8 word) < 256"
  using uint_bounded [of c] by simp

lemma S_spec_bytes:
  assumes "length hs = 20"
  defines "off \<equiv> unat (hs ! 19 AND 0x0F)"
  shows "truncate_hs hs = sint (push_bit 24 (ucast (hs ! off AND 0x7F))
           OR push_bit 16 (ucast (hs ! (off + 1))) OR push_bit 8 (ucast (hs ! (off + 2)))
           OR ucast (hs ! (off + 3)) :: 32 word)"
    and "int (S_spec hs) = uint (hs ! off AND 0x7F) * 2 ^ 24 + uint (hs ! (off + 1)) * 2 ^ 16
           + uint (hs ! (off + 2)) * 2 ^ 8 + uint (hs ! (off + 3))"
proof -
  have "off < 16" unfolding off_def by (rule unat_and_0F)
  with assms have t: "take 4 (drop off hs) = [hs ! off, hs ! (off + 1), hs ! (off + 2), hs ! (off + 3)]"
    by (simp add: take4_drop)
  have "S_spec hs = big_endian [hs ! off AND 0x7F, hs ! (off + 1), hs ! (off + 2), hs ! (off + 3)]"
    unfolding S_spec_def Let_def off_def [symmetric] t by simp
  then show "int (S_spec hs) = uint (hs ! off AND 0x7F) * 2 ^ 24 + uint (hs ! (off + 1)) * 2 ^ 16
       + uint (hs ! (off + 2)) * 2 ^ 8 + uint (hs ! (off + 3))"
    by (simp add: big_endian_def)
  show "truncate_hs hs = sint (push_bit 24 (ucast (hs ! off AND 0x7F)) 
       OR push_bit 16 (ucast (hs ! (off + 1))) OR push_bit 8 (ucast (hs ! (off + 2))) 
       OR ucast (hs ! (off + 3)) :: 32 word)"
    by (simp add: truncate_hs_def Let_def int_of_char_ff int_of_char_7f int_of_char_0f flip: off_def)
qed

lemma truncate_hs_spec:
  assumes "length hs = 20"
  shows "truncate_hs hs = int (S_spec hs)"
  by (simp only: S_spec_bytes [OF assms] sint_compose)

lemma S_spec_less:
  assumes "length hs = 20"
  shows "S_spec hs < 2 ^ 31"
proof -
  define off where "off = unat (hs ! 19 AND 0x0F)"
  from uint_and_7F [of "hs ! off"] uint_byte_less [of "hs ! (off + 1)"]
    uint_byte_less [of "hs ! (off + 2)"] uint_byte_less [of "hs ! (off + 3)"]
  have "int (S_spec hs) < 2 ^ 31"
    unfolding S_spec_bytes(2) [OF assms] off_def [symmetric] by simp
  then show ?thesis by (simp flip: of_nat_less_iff)
qed

lemma generate_Some:
  assumes "hmac secret (counter_bytes mf) = Some hs" and "length hs = 20"
    and "digits = 6 \<or> digits = 7 \<or> digits = 8"
  shows "oath_hotp_generate hmac secret mf digits cs toff =
           Inr (otp_string_spec (unat digits) (S_spec hs mod 10 ^ unat digits))"
proof -
  have r: "c_rem (int (S_spec hs)) (10 ^ d) = int (S_spec hs mod 10 ^ d)" for d
    by (simp add: c_rem_nonneg zmod_int)
  have s: "snprintf_otp digits (int (S_spec hs mod 10 ^ unat digits)) =
             Inr (otp_string_spec (unat digits) (S_spec hs mod 10 ^ unat digits))"
    using snprintf_otp_ok [of "int (S_spec hs mod 10 ^ unat digits)" digits] by simp
  from assms(3) show ?thesis
  proof (elim disjE)
    assume "digits = 6"
    with s r [of 6] assms(1,2) show ?thesis
      by (simp add: oath_hotp_generate_def truncate_hs_spec)
  next
    assume "digits = 7"
    with s r [of 7] assms(1,2) show ?thesis
      by (simp add: oath_hotp_generate_def truncate_hs_spec)
  next
    assume "digits = 8"
    with s r [of 8] assms(1,2) show ?thesis
      by (simp add: oath_hotp_generate_def truncate_hs_spec)
  qed
qed

lemma generate_invalid_digits:
  assumes "hmac secret (counter_bytes mf) = Some hs"
    and "digits \<noteq> 6" "digits \<noteq> 7" "digits \<noteq> 8"
  shows "oath_hotp_generate hmac secret mf digits cs toff = Inl OATH_INVALID_DIGITS"
  using assms by (simp add: oath_hotp_generate_def)

subsection \<open>The search loop\<close>

lemma strcmp_eq_0_iff: "strcmp a b = 0 \<longleftrightarrow> a = b"
  by (induction a b rule: strcmp.induct) auto

lemma ucast_of_nat_32_64:
  "k < 2 ^ 32 \<Longrightarrow> (ucast (of_nat k :: 32 word) :: 64 word) = of_nat k"
  by (simp add: ucast_eq take_bit_nat_eq_self unsigned_of_nat)

lemma of_nat_neq_window:
  assumes "k < unat (window :: 64 word)"
  shows "window \<noteq> of_nat k"
proof
  assume "window = of_nat k"
  then have "unat window = take_bit 64 k" by (simp add: unsigned_of_nat)
  also have "\<dots> \<le> k" by (rule take_bit_nat_less_eq_self)
  finally show False using assms by simp
qed

lemma validate_loop_skip:
  assumes "keeps_searching mac secret start digits cmp k"
    and "k \<le> unat window" and "k < 2 ^ 32"
  shows "validate_loop mac secret start window digits cmp 0 =
         validate_loop mac secret start window digits cmp (of_nat k)"
  using assms
proof (induction k)
  case 0
  then show ?case by simp
next
  case (Suc k)
  then have ks: "keeps_searching mac secret start digits cmp k"
    and cur: "case gen_at mac secret start digits k of Inl rc \<Rightarrow> False | Inr otp \<Rightarrow> cmp otp \<noteq> 0"
    by (auto simp: keeps_searching_def)
  from Suc.prems have k: "k < unat window" "k < 2 ^ 32" by simp_all
  then have nw: "window - ucast (of_nat k :: 32 word) \<noteq> 0"
    by (simp add: ucast_of_nat_32_64 of_nat_neq_window)
  from cur obtain otp where g: "gen_at mac secret start digits k = Inr otp" and c: "cmp otp \<noteq> 0"
    by (auto split: sum.splits)
  have "validate_loop mac secret start window digits cmp (of_nat k) =
        validate_loop mac secret start window digits cmp (of_nat (Suc k))"
    using g c nw k by (subst validate_loop.simps) (simp add: ucast_of_nat_32_64 add.commute)
  with Suc.IH [OF ks] k show ?case by simp
qed

lemma validate_loop_at:
  assumes "k < 2 ^ 32"
  shows "validate_loop mac secret start window digits cmp (of_nat k) =
     (case gen_at mac secret start digits k of
        Inl rc \<Rightarrow> Some (Inl rc)
      | Inr tmp_otp \<Rightarrow>
          if cmp tmp_otp = 0 then Some (Inr (sint (of_nat k :: 32 word)))
          else if window \<noteq> of_nat k
          then validate_loop mac secret start window digits cmp (of_nat (Suc k))
          else Some (Inl OATH_INVALID_OTP))"
  using assms
  by (subst validate_loop.simps) (simp add: ucast_of_nat_32_64 add.commute split: sum.splits)

lemma validate_loop_match:
  assumes "keeps_searching mac secret start digits cmp k"
    and "k \<le> unat window" and "k < 2 ^ 32"
    and "gen_at mac secret start digits k = Inr otp" and "cmp otp = 0"
  shows "oath_hotp_validate_callback mac secret start window digits cmp =
           Some (Inr (sint (of_nat k :: 32 word)))"
  unfolding oath_hotp_validate_callback_def validate_loop_skip [OF assms(1-3)]
  using assms(4-5) by (simp add: validate_loop_at [OF assms(3)])

lemma validate_loop_error:
  assumes "keeps_searching mac secret start digits cmp k"
    and "k \<le> unat window" and "k < 2 ^ 32"
    and "gen_at mac secret start digits k = Inl rc"
  shows "oath_hotp_validate_callback mac secret start window digits cmp = Some (Inl rc)"
  unfolding oath_hotp_validate_callback_def validate_loop_skip [OF assms(1-3)]
  using assms(4) by (simp add: validate_loop_at [OF assms(3)])

lemma validate_loop_exhausted:
  assumes "keeps_searching mac secret start digits cmp (Suc (unat window))"
    and "unat window < 2 ^ 32"
  shows "oath_hotp_validate_callback mac secret start window digits cmp = Some (Inl OATH_INVALID_OTP)"
proof -
  define k where "k = unat window"
  have w: "window = of_nat k" by (simp add: k_def)
  from assms(1) have ks: "keeps_searching mac secret start digits cmp k"
    and cur: "case gen_at mac secret start digits k of Inl rc \<Rightarrow> False | Inr otp \<Rightarrow> cmp otp \<noteq> 0"
    by (auto simp: keeps_searching_def k_def)
  from cur obtain otp where g: "gen_at mac secret start digits k = Inr otp" and c: "cmp otp \<noteq> 0"
    by (auto split: sum.splits)
  have k32: "k < 2 ^ 32" using assms(2) by (simp add: k_def)
  have "validate_loop mac secret start window digits cmp 0 =
        validate_loop mac secret start window digits cmp (of_nat k)"
    by (rule validate_loop_skip [OF ks _ k32]) (simp add: k_def)
  also have "\<dots> = Some (Inl OATH_INVALID_OTP)"
    unfolding validate_loop_at [OF k32] using g c w by simp
  finally show ?thesis by (simp add: oath_hotp_validate_callback_def)
qed

lemma sint_of_nat_small:
  assumes "k < 2 ^ 31"
  shows "sint (of_nat k :: 32 word) = int k"
proof -
  have "uint (of_nat k :: 32 word) = take_bit 32 (int k)"
    by (simp add: unsigned_of_nat take_bit_of_nat)
  also have "\<dots> = int k" using assms by (simp add: take_bit_int_eq_self)
  finally have "sint (of_nat k :: 32 word) = signed_take_bit 31 (int k)"
    by (simp add: sint_uint)
  also have "\<dots> = int k" using assms by (simp add: signed_take_bit_int_eq_self)
  finally show ?thesis .
qed

lemma strcmp_callback_eq_0_iff: "strcmp_callback a b = 0 \<longleftrightarrow> a = b"
  by (simp add: strcmp_callback_def strcmp_eq_0_iff)

lemma keeps_searching_0: "keeps_searching hmac secret start digits cmp 0"
  by (simp add: keeps_searching_def)

lemma keeps_searching_Suc:
  "keeps_searching hmac secret start digits cmp (Suc k) \<longleftrightarrow>
     keeps_searching hmac secret start digits cmp k \<and>
     (case gen_at hmac secret start digits k of Inl rc \<Rightarrow> False | Inr otp \<Rightarrow> cmp otp \<noteq> 0)"
  by (auto simp: keeps_searching_def less_Suc_eq)

lemma window_neq_ucast:
  assumes "2 ^ 32 \<le> unat (window :: 64 word)"
  shows "window \<noteq> ucast (iter :: 32 word)"
proof
  assume "window = ucast iter"
  moreover have i: "unat iter < 2 ^ 32" using unsigned_less [of iter] by simp
  then have "take_bit 64 (unat iter) = unat iter" by (simp add: take_bit_nat_eq_self)
  ultimately have "unat window = unat iter" by (simp add: unsigned_ucast_eq)
  with i show False using assms by simp
qed

lemma validate_loop_diverges:
  assumes all: "\<And>c. \<exists>otp. oath_hotp_generate hmac secret c digits False OATH_HOTP_DYNAMIC_TRUNCATION = Inr otp \<and> cmp otp \<noteq> 0"
    and big: "2 ^ 32 \<le> unat window"
  shows "validate_loop hmac secret start window digits cmp iter = None"
proof -
  have never: "m = hmac \<longrightarrow> s = secret \<longrightarrow> d = digits \<longrightarrow> c = cmp \<longrightarrow> w = window \<longrightarrow> False"
    if run: "validate_loop m s st w d c it = Some y" for m s st w d c it y
  proof (rule validate_loop.raw_induct
      [where P = "\<lambda>m s st w d c it y. m = hmac \<longrightarrow> s = secret \<longrightarrow> d = digits \<longrightarrow> c = cmp \<longrightarrow> w = window \<longrightarrow> False",
        OF _ run], intro impI)
    fix f :: "mac \<Rightarrow> byte list \<Rightarrow> 64 word \<Rightarrow> 64 word \<Rightarrow> 32 word \<Rightarrow> (string \<Rightarrow> int) \<Rightarrow> 32 word
        \<Rightarrow> (oath_rc + int) option"
      and m :: mac and s :: "byte list" and st w :: "64 word" and d it :: "32 word"
      and c :: "string \<Rightarrow> int" and y :: "oath_rc + int"
    assume IH: "\<And>m s st w d c it y. f m s st w d c it = Some y \<Longrightarrow>
        m = hmac \<longrightarrow> s = secret \<longrightarrow> d = digits \<longrightarrow> c = cmp \<longrightarrow> w = window \<longrightarrow> False"
      and body: "(case oath_hotp_generate m s (st + ucast it) d False OATH_HOTP_DYNAMIC_TRUNCATION of
          Inl rc \<Rightarrow> Some (Inl rc)
        | Inr tmp_otp \<Rightarrow>
            if c tmp_otp = 0 then Some (Inr (sint it))
            else if w - ucast it \<noteq> 0 then f m s st w d c (it + 1)
            else Some (Inl OATH_INVALID_OTP)) = Some y"
      and eqs: "m = hmac" "s = secret" "d = digits" "c = cmp" "w = window"
    from all [of "st + ucast it"] obtain otp where
      g: "oath_hotp_generate hmac secret (st + ucast it) digits False OATH_HOTP_DYNAMIC_TRUNCATION = Inr otp"
      and c: "cmp otp \<noteq> 0" by blast
    from big have "window \<noteq> ucast it" by (rule window_neq_ucast)
    with body g c eqs have "f m s st w d c (it + 1) = Some y" by simp
    from IH [OF this] eqs show False by simp
  qed
  show ?thesis
  proof (cases "validate_loop hmac secret start window digits cmp iter")
    case None
    then show ?thesis .
  next
    case (Some a)
    from never [OF this] show ?thesis by simp
  qed
qed

lemma of_nat_32_inj:
  assumes "n < 2 ^ 32" and "m < 2 ^ 32" and "(of_nat n :: 32 word) = of_nat m"
  shows "n = m"
proof -
  from assms(3) have "unat (of_nat n :: 32 word) = unat (of_nat m :: 32 word)" by simp
  with assms(1,2) show ?thesis by (simp add: unsigned_of_nat take_bit_nat_eq_self)
qed


subsection \<open>The first matching offset\<close>

lemma length_takeWhile_all: "(\<forall>x\<in>set xs. P x) \<Longrightarrow> length (takeWhile P xs) = length xs"
  by (induction xs) auto

lemma first_match_le: "first_match hmac secret start digits otp k \<le> k"
  using length_takeWhile_le [of "\<lambda>j. gen_at hmac secret start digits j \<noteq> Inr otp" "[0..<k]"]
  by (simp add: first_match_def)

lemma first_match_before:
  assumes "j < first_match hmac secret start digits otp k"
  shows "gen_at hmac secret start digits j \<noteq> Inr otp"
proof -
  let ?P = "\<lambda>j. gen_at hmac secret start digits j \<noteq> Inr otp"
  from assms have j: "j < length (takeWhile ?P [0..<k])" by (simp add: first_match_def)
  then have "takeWhile ?P [0..<k] ! j \<in> set (takeWhile ?P [0..<k])" by (rule nth_mem)
  then have "?P (takeWhile ?P [0..<k] ! j)" by (rule set_takeWhileD [THEN conjunct2])
  moreover have "takeWhile ?P [0..<k] ! j = [0..<k] ! j" using j by (rule takeWhile_nth)
  moreover have "j < k" using j length_takeWhile_le [of ?P "[0..<k]"] by simp
  ultimately show ?thesis by simp
qed

lemma first_match_at:
  assumes "first_match hmac secret start digits otp k < k"
  shows "gen_at hmac secret start digits (first_match hmac secret start digits otp k) = Inr otp"
proof -
  let ?P = "\<lambda>j. gen_at hmac secret start digits j \<noteq> Inr otp"
  from assms have "length (takeWhile ?P [0..<k]) < length [0..<k]" by (simp add: first_match_def)
  then have "\<not> ?P ([0..<k] ! length (takeWhile ?P [0..<k]))" by (rule nth_length_takeWhile)
  with assms show ?thesis by (simp add: first_match_def)
qed

lemma first_match_stable:
  assumes "gen_at hmac secret start digits k = Inr otp" and "k < m"
  shows "first_match hmac secret start digits otp m = first_match hmac secret start digits otp k"
proof -
  let ?P = "\<lambda>j. gen_at hmac secret start digits j \<noteq> Inr otp"
  have "[0..<Suc k + (m - Suc k)] = [0..<Suc k] @ [Suc k..<Suc k + (m - Suc k)]"
    by (rule upt_add_eq_append) simp
  with assms(2) have "[0..<m] = [0..<Suc k] @ [Suc k..<m]" by simp
  moreover have "takeWhile ?P ([0..<Suc k] @ [Suc k..<m]) = takeWhile ?P [0..<Suc k]"
    by (rule takeWhile_append1 [where x = k]) (use assms(1) in auto)
  moreover have "length (takeWhile ?P [0..<Suc k]) = length (takeWhile ?P [0..<k])"
  proof (cases "\<forall>x\<in>set [0..<k]. ?P x")
    case True
    then have "takeWhile ?P ([0..<k] @ [k]) = [0..<k] @ takeWhile ?P [k]"
      by (intro takeWhile_append2) auto
    with assms(1) True show ?thesis by (simp add: length_takeWhile_all)
  next
    case False
    then obtain x where "x \<in> set [0..<k]" "\<not> ?P x" by blast
    then have "takeWhile ?P ([0..<k] @ [k]) = takeWhile ?P [0..<k]"
      by (rule takeWhile_append1)
    then show ?thesis by simp
  qed
  ultimately show ?thesis by (simp add: first_match_def)
qed

lemma first_match_none:
  assumes "\<forall>j<k. gen_at hmac secret start digits j \<noteq> Inr otp"
  shows "first_match hmac secret start digits otp k = k"
  unfolding first_match_def using assms by (subst length_takeWhile_all) auto

lemma generate_length:
  assumes "hmac secret (counter_bytes mf) = Some hs" and "length hs = 20"
    and "digits = 6 \<or> digits = 7 \<or> digits = 8"
    and "oath_hotp_generate hmac secret mf digits cs toff = Inr otp"
  shows "length otp = unat digits"
  using generate_Some [where hmac = hmac and secret = secret, OF assms(1-3), of cs toff] assms(4)
  by (auto simp: length_otp_string_spec)

lemma keeps_searching_strcmp:
  assumes mac: "\<forall>j<n. \<exists>hs. hmac secret (counter_bytes (start + of_nat j)) = Some hs \<and> length hs = 20"
    and d: "digits = 6 \<or> digits = 7 \<or> digits = 8"
    and ne: "\<forall>j<n. gen_at hmac secret start digits j \<noteq> Inr otp"
  shows "keeps_searching hmac secret start digits (strcmp_callback otp) n"
  unfolding keeps_searching_def
proof (intro allI impI)
  fix j assume j: "j < n"
  with mac obtain hs where "hmac secret (counter_bytes (start + of_nat j)) = Some hs" "length hs = 20"
    by blast
  from generate_Some [where hmac = hmac and secret = secret, OF this d]
  obtain o' where g: "gen_at hmac secret start digits j = Inr o'" by blast
  with ne j have "o' \<noteq> otp" by auto
  with g show "case gen_at hmac secret start digits j of Inl rc \<Rightarrow> False
      | Inr tmp \<Rightarrow> strcmp_callback otp tmp \<noteq> 0"
    by (auto simp: strcmp_callback_eq_0_iff)
qed

lemma validate_first_match:
  assumes w: "unat window < 2 ^ 31"
    and d: "digits = 6 \<or> digits = 7 \<or> digits = 8"
    and mac: "\<forall>j\<le>unat window. \<exists>hs. hmac secret (counter_bytes (start + of_nat j)) = Some hs \<and> length hs = 20"
    and l: "length otp = unat digits"
  shows "oath_hotp_validate hmac secret start window otp =
          (if first_match hmac secret start digits otp (Suc (unat window)) \<le> unat window
           then Some (Inr (int (first_match hmac secret start digits otp (Suc (unat window)))))
           else Some (Inl OATH_INVALID_OTP))"
proof -
  define n where n: "n = first_match hmac secret start digits otp (Suc (unat window))"
  have dg: "of_nat (length otp) = digits" by (simp add: l)
  have nle: "n \<le> Suc (unat window)" unfolding n by (rule first_match_le)
  have "\<forall>j<n. gen_at hmac secret start digits j \<noteq> Inr otp"
    unfolding n by (auto dest: first_match_before)
  moreover from mac nle have "\<forall>j<n. \<exists>hs. hmac secret (counter_bytes (start + of_nat j)) = Some hs \<and> length hs = 20"
    by auto
  ultimately have ks: "keeps_searching hmac secret start digits (strcmp_callback otp) n"
    using d by (intro keeps_searching_strcmp) auto
  have "oath_hotp_validate hmac secret start window otp =
          (if n \<le> unat window then Some (Inr (int n)) else Some (Inl OATH_INVALID_OTP))"
  proof (cases "n \<le> unat window")
    case True
    then have "n < Suc (unat window)" by simp
    then have g: "gen_at hmac secret start digits n = Inr otp"
      unfolding n by (rule first_match_at)
    from True w have "n < 2 ^ 32" "n < 2 ^ 31" by simp_all
    with validate_loop_match [OF ks True _ g] True show ?thesis
      by (simp add: oath_hotp_validate_def dg strcmp_callback_eq_0_iff sint_of_nat_small)
  next
    case False
    with nle have "n = Suc (unat window)" by simp
    with ks w False validate_loop_exhausted [of hmac secret start digits "strcmp_callback otp" window]
    show ?thesis by (simp add: oath_hotp_validate_def dg)
  qed
  then show ?thesis by (simp add: n)
qed


subsection \<open>Repeated OTPs\<close>

text \<open>
  There are \<open>10 ^ 6\<close> six-digit OTPs, so among the counters \<open>0, ..., 10 ^ 6\<close> two
  generate the same one, whatever the MAC and the secret are; validating the later
  one from the earlier counter on finds it at offset 0.
\<close>

lemma otp_collision_exists:
  assumes mac: "\<And>msg. \<exists>hs. hmac secret msg = Some hs \<and> length hs = 20"
  shows "\<exists>i j. i < j \<and> j \<le> 10 ^ 6 \<and>
           oath_hotp_generate hmac secret (of_nat i) 6 False OATH_HOTP_DYNAMIC_TRUNCATION
         = oath_hotp_generate hmac secret (of_nat j) 6 False OATH_HOTP_DYNAMIC_TRUNCATION"
proof -
  define f where "f j = oath_hotp_generate hmac secret (of_nat j) 6 False OATH_HOTP_DYNAMIC_TRUNCATION"
    for j :: nat
  have "f j \<in> (\<lambda>v. Inr (otp_string_spec 6 v)) ` {..<10 ^ 6}" for j
  proof -
    from mac obtain hs where "hmac secret (counter_bytes (of_nat j)) = Some hs" "length hs = 20"
      by blast
    from generate_Some [where hmac = hmac and secret = secret and digits = 6, OF this]
    have "f j = Inr (otp_string_spec 6 (S_spec hs mod 10 ^ 6))" by (simp add: f_def)
    then show ?thesis by (intro image_eqI [where x = "S_spec hs mod 10 ^ 6"]) simp_all
  qed
  then have "f ` {0..10 ^ 6} \<subseteq> (\<lambda>v. Inr (otp_string_spec 6 v)) ` {..<10 ^ 6}" by blast
  then have "card (f ` {0..10 ^ 6}) \<le> card ((\<lambda>v. Inr (otp_string_spec 6 v) :: oath_rc + string) ` {..<10 ^ 6 :: nat})"
    by (intro card_mono) auto
  also have "\<dots> \<le> card {..<10 ^ 6 :: nat}" by (rule card_image_le) simp
  finally have "card (f ` {0..10 ^ 6}) < card {0..10 ^ 6 :: nat}" by simp
  then have "\<not> inj_on f {0..10 ^ 6}" by (rule pigeonhole)
  then obtain a b where ab: "a \<le> 10 ^ 6" "b \<le> 10 ^ 6" "a \<noteq> b" "f a = f b"
    by (auto simp: inj_on_def)
  show ?thesis
  proof (cases "a < b")
    case True
    with ab show ?thesis unfolding f_def by blast
  next
    case False
    with ab have "b < a" by simp
    with ab show ?thesis unfolding f_def by metis
  qed
qed

lemma validate_roundtrip_fails_for_every_mac:
  assumes mac: "\<And>msg. \<exists>hs. hmac secret msg = Some hs \<and> length hs = 20"
  shows "\<exists>c k window otp. k \<le> unat window \<and> unat window < 2 ^ 31 \<and>
           oath_hotp_generate hmac secret (c + of_nat k) 6 False OATH_HOTP_DYNAMIC_TRUNCATION = Inr otp \<and>
           oath_hotp_validate hmac secret c window otp = Some (Inr 0) \<and> 0 < k"
proof -
  from otp_collision_exists [where hmac = hmac and secret = secret, OF mac] obtain i j where ij: "i < j" "j \<le> 10 ^ 6"
    and eq: "oath_hotp_generate hmac secret (of_nat i) 6 False OATH_HOTP_DYNAMIC_TRUNCATION
         = oath_hotp_generate hmac secret (of_nat j) 6 False OATH_HOTP_DYNAMIC_TRUNCATION"
    by blast
  define c :: "64 word" where "c = of_nat i"
  define k where "k = j - i"
  define window :: "64 word" where "window = of_nat k"
  from ij have k: "0 < k" "k \<le> 10 ^ 6" by (simp_all add: k_def)
  then have uw: "unat window = k" by (simp add: window_def unsigned_of_nat take_bit_nat_eq_self)
  from mac obtain hs where hs: "hmac secret (counter_bytes (of_nat j)) = Some hs" "length hs = 20"
    by blast
  define otp where "otp = otp_string_spec 6 (S_spec hs mod 10 ^ 6)"
  from generate_Some [where hmac = hmac and secret = secret and digits = 6, OF hs]
  have gj: "oath_hotp_generate hmac secret (of_nat j) 6 False OATH_HOTP_DYNAMIC_TRUNCATION = Inr otp"
    by (simp add: otp_def)
  have cj: "c + of_nat k = of_nat j" using ij by (simp add: c_def k_def flip: of_nat_add)
  have g0: "gen_at hmac secret c 6 0 = Inr otp" using eq gj by (simp add: c_def)
  have l: "length otp = unat (6 :: 32 word)" by (simp add: otp_def length_otp_string_spec)
  have "first_match hmac secret c 6 otp (Suc (unat window)) = first_match hmac secret c 6 otp 0"
    using g0 by (intro first_match_stable) auto
  then have fm: "first_match hmac secret c 6 otp (Suc (unat window)) = 0"
    by (simp add: first_match_def)
  have "oath_hotp_validate hmac secret c window otp = Some (Inr 0)"
    using validate_first_match [where hmac = hmac and secret = secret and start = c
        and digits = 6 and window = window and otp = otp] mac k uw l
    by (simp add: fm fm [unfolded uw])
  with k uw gj cj show ?thesis by (intro exI [of _ c] exI [of _ k] exI [of _ window] exI [of _ otp]) simp
qed

subsection \<open>The counter bytes\<close>

lemma counter_bytes_nth:
  assumes "i < 8"
  shows "unat (counter_bytes c ! i) = unat c div 2 ^ (8 * (7 - i)) mod 256"
proof -
  define w where "w = drop_bit ((7 - i) * 8) c"
  have m: "(0xFF :: 64 word) = mask 8" by (simp add: mask_eq_exp_minus_1)
  have "unat (ucast (w AND 0xFF) :: 8 word) = take_bit 8 (unat (w AND mask 8))"
    by (simp add: unsigned_ucast_eq m)
  also have "\<dots> = take_bit 8 (take_bit 8 (unat w))"
    by (simp add: unsigned_take_bit_eq flip: take_bit_eq_mask)
  also have "\<dots> = unat w mod 256" by (simp add: take_bit_eq_mod)
  also have "unat w = unat c div 2 ^ (8 * (7 - i))"
    unfolding w_def unat_drop_bit_eq by (simp add: drop_bit_eq_div mult.commute)
  finally have "unat (ucast (w AND 0xFF) :: 8 word) = unat c div 2 ^ (8 * (7 - i)) mod 256" .
  with assms show ?thesis by (simp add: counter_bytes_def w_def)
qed


subsection \<open>Concrete values\<close>

lemma digit_char_simps:
  "digit_char 0 = CHR ''0''" "digit_char 1 = CHR ''1''" "digit_char 2 = CHR ''2''"
  "digit_char 3 = CHR ''3''" "digit_char 4 = CHR ''4''" "digit_char 5 = CHR ''5''"
  "digit_char 6 = CHR ''6''" "digit_char 7 = CHR ''7''" "digit_char 8 = CHR ''8''"
  "digit_char 9 = CHR ''9''"
  by (simp_all add: digit_char_def char_of_def bit_simps)

lemma counter_bytes_0: "counter_bytes 0 = [0, 0, 0, 0, 0, 0, 0, 0]"
  by (simp add: counter_bytes_def upt_rec)

lemma counter_bytes_1: "counter_bytes 1 = [0, 0, 0, 0, 0, 0, 0, 1]"
  by (simp add: counter_bytes_def upt_rec drop_bit_Suc numeral_eq_Suc)

lemma S_spec_digest_0: "S_spec rfc4226_digest_0 = 1284755224"
  by (simp add: S_spec_def rfc4226_digest_0_def big_endian_def)

lemma S_spec_digest_1: "S_spec rfc4226_digest_1 = 1094287082"
  by (simp add: S_spec_def rfc4226_digest_1_def big_endian_def)

lemma otp_755224: "otp_string_spec 6 755224 = ''755224''"
  by (simp add: otp_string_spec_def upt_rec digit_char_simps)

lemma digit_char_Suc_0: "digit_char (Suc 0) = CHR ''1''"
  by (simp add: digit_char_def char_of_def bit_simps)

lemma counter_bytes_2: "counter_bytes 2 = [0, 0, 0, 0, 0, 0, 0, 2]"
  by (simp add: counter_bytes_def upt_rec)

lemma counter_bytes_3: "counter_bytes 3 = [0, 0, 0, 0, 0, 0, 0, 3]"
  by (simp add: counter_bytes_def upt_rec)

lemma S_spec_digest_2: "S_spec rfc4226_digest_2 = 137359152"
  by (simp add: S_spec_def rfc4226_digest_2_def big_endian_def)

lemma otp_359152: "otp_string_spec 6 359152 = ''359152''"
  by (simp add: otp_string_spec_def upt_rec digit_char_simps digit_char_Suc_0)

lemma otp_287082: "otp_string_spec 6 287082 = ''287082''"
  by (simp add: otp_string_spec_def upt_rec digit_char_simps)

lemma S_spec_zero: "S_spec (replicate 20 0) = 0"
  by (simp add: S_spec_def big_endian_def numeral_eq_Suc)

lemma otp_000000: "otp_string_spec 6 0 = ''000000''"
  by (simp add: otp_string_spec_def upt_rec digit_char_simps digit_char_Suc_0)

lemma otp_000001: "otp_string_spec 6 (Suc 0) = ''000001''"
  by (simp add: otp_string_spec_def upt_rec digit_char_simps digit_char_Suc_0)

lemma rfc4226_generate_0:
  "oath_hotp_generate rfc4226_mac rfc4226_secret 0 6 cs toff = Inr ''755224''"
proof -
  have m: "rfc4226_mac rfc4226_secret (counter_bytes 0) = Some rfc4226_digest_0"
    by (simp add: rfc4226_mac_def counter_bytes_0)
  have l: "length rfc4226_digest_0 = 20" by (simp add: rfc4226_digest_0_def)
  from generate_Some [where hmac = rfc4226_mac and secret = rfc4226_secret and digits = 6, OF m l]
  show ?thesis by (simp add: S_spec_digest_0 otp_755224)
qed

lemma rfc4226_generate_1:
  "oath_hotp_generate rfc4226_mac rfc4226_secret 1 6 cs toff = Inr ''287082''"
proof -
  have m: "rfc4226_mac rfc4226_secret (counter_bytes 1) = Some rfc4226_digest_1"
    by (simp add: rfc4226_mac_def counter_bytes_1)
  have l: "length rfc4226_digest_1 = 20" by (simp add: rfc4226_digest_1_def)
  from generate_Some [where hmac = rfc4226_mac and secret = rfc4226_secret and digits = 6, OF m l]
  show ?thesis by (simp add: S_spec_digest_1 otp_287082)
qed

lemma rfc4226_generate_2:
  "oath_hotp_generate rfc4226_mac rfc4226_secret 2 6 cs toff = Inr ''359152''"
proof -
  have m: "rfc4226_mac rfc4226_secret (counter_bytes 2) = Some rfc4226_digest_2"
    by (simp add: rfc4226_mac_def counter_bytes_2)
  have l: "length rfc4226_digest_2 = 20" by (simp add: rfc4226_digest_2_def)
  from generate_Some [where hmac = rfc4226_mac and secret = rfc4226_secret and digits = 6, OF m l]
  show ?thesis by (simp add: S_spec_digest_2 otp_359152)
qed

lemma rfc4226_generate_3:
  "oath_hotp_generate rfc4226_mac rfc4226_secret 3 6 cs toff = Inl OATH_CRYPTO_ERROR"
  by (simp add: oath_hotp_generate_def rfc4226_mac_def counter_bytes_3)

lemma zero_mac_generate:
  "oath_hotp_generate zero_mac secret c 6 cs toff = Inr ''000000''"
  using generate_Some [where hmac = zero_mac and secret = secret and mf = c and digits = 6
      and hs = "replicate 20 0"]
  by (simp add: zero_mac_def S_spec_zero otp_000000)

lemma wrap_mac_generate_low:
  assumes "j < 2 ^ 31"
  shows "oath_hotp_generate wrap_mac secret (of_nat j) 6 cs toff = Inr ''000000''"
proof -
  have "unat (of_nat j :: 64 word) = j" using assms by (simp add: unsigned_of_nat take_bit_nat_eq_self)
  then have "unat (counter_bytes (of_nat j) ! 4) = j div 2 ^ 24 mod 256"
    by (simp add: counter_bytes_nth)
  moreover have "j div 2 ^ 24 < 128" using assms by (simp add: less_mult_imp_div_less)
  ultimately have "unat (counter_bytes (of_nat j) ! 4) < 128" by simp
  then have "counter_bytes (of_nat j) ! 4 < 0x80" by (simp add: word_less_nat_alt)
  then have "wrap_mac secret (counter_bytes (of_nat j)) = Some (replicate 20 0)"
    by (simp add: wrap_mac_def numeral_eq_Suc)
  from generate_Some [where hmac = wrap_mac and secret = secret and digits = 6, OF this]
  show ?thesis by (simp add: S_spec_zero otp_000000)
qed

lemma wrap_mac_generate_high:
  "oath_hotp_generate wrap_mac secret 2147483648 6 cs toff = Inr ''000001''"
proof -
  have e: "(2147483648 :: 64 word) = 2 ^ 31" by simp
  have "unat (counter_bytes (2 ^ 31) ! 4) = 128"
    by (simp add: counter_bytes_nth)
  then have "\<not> counter_bytes (2 ^ 31) ! 4 < 0x80" by (simp add: word_less_nat_alt)
  then have m: "wrap_mac secret (counter_bytes (2 ^ 31)) = Some ([0, 0, 0, 1] @ replicate 16 0)"
    by (simp add: wrap_mac_def)
  have "S_spec ([0, 0, 0, 1] @ replicate 16 0) = 1"
    by (simp add: S_spec_def big_endian_def numeral_eq_Suc)
  with generate_Some [where hmac = wrap_mac and secret = secret and digits = 6, OF m]
  show ?thesis unfolding e by (simp add: otp_000001)
qed


section \<open>The claims about hotp.c\<close>

text \<open>
  Claim C3. When the MAC succeeds with a 20-byte digest, \<open>oath_hotp_generate\<close> returns,
  for \<open>digits\<close> 6, 7 or 8, the number \<open>S mod 10 ^ digits\<close> written with exactly
  \<open>digits\<close> decimal characters, zeros in front, where \<open>S\<close> is the 31-bit big-endian
  number read at the offset \<open>digest[19] & 0x0F\<close> with the top bit of its first byte
  cleared; for every other \<open>digits\<close> it fails with \<open>OATH_INVALID_DIGITS\<close>.
\<close>

theorem generate_truncation:
  assumes "hmac secret (counter_bytes moving_factor) = Some hs" and "length hs = 20"
  shows "oath_hotp_generate hmac secret moving_factor digits add_checksum truncation_offset =
           (if digits = 6 \<or> digits = 7 \<or> digits = 8
            then Inr (otp_string_spec (unat digits) (S_spec hs mod 10 ^ unat digits))
            else Inl OATH_INVALID_DIGITS)"
proof (cases "digits = 6 \<or> digits = 7 \<or> digits = 8")
  case True
  with generate_Some [where hmac = hmac and secret = secret, OF assms True]
  show ?thesis by simp
next
  case False
  with generate_invalid_digits [where hmac = hmac and secret = secret, OF assms(1)]
  show ?thesis by simp
qed

text \<open>
  The first test vector of RFC 4226: counter 0 gives \<open>755224\<close>; five digits are refused.
\<close>

theorem generate_truncation_witness:
  "rfc4226_mac rfc4226_secret (counter_bytes 0) = Some rfc4226_digest_0 \<and>
   length rfc4226_digest_0 = 20 \<and>
   oath_hotp_generate rfc4226_mac rfc4226_secret 0 6 False OATH_HOTP_DYNAMIC_TRUNCATION = Inr ''755224'' \<and>
   oath_hotp_generate rfc4226_mac rfc4226_secret 0 5 False OATH_HOTP_DYNAMIC_TRUNCATION = Inl OATH_INVALID_DIGITS"
proof -
  have m: "rfc4226_mac rfc4226_secret (counter_bytes 0) = Some rfc4226_digest_0"
    by (simp add: rfc4226_mac_def counter_bytes_0)
  have l: "length rfc4226_digest_0 = 20" by (simp add: rfc4226_digest_0_def)
  note g = generate_truncation [where hmac = rfc4226_mac and secret = rfc4226_secret
      and moving_factor = 0 and add_checksum = False
      and truncation_offset = OATH_HOTP_DYNAMIC_TRUNCATION, OF m l]
  from g [of 6] g [of 5] m l
  show ?thesis by (simp add: S_spec_digest_0 otp_755224)
qed

text \<open>
  Claim C9. For \<open>digits\<close> 6, 7 or 8 and a MAC that succeeds, the branch that returns
  \<open>OATH_PRINTF_ERROR\<close> is never taken: the truncated value lies in
  \<open>[0, 10 ^ digits)\<close>, so its conversion has exactly \<open>digits\<close> characters.
\<close>

theorem generate_never_printf_error:
  assumes "hmac secret (counter_bytes moving_factor) = Some hs" and "length hs = 20"
    and "digits = 6 \<or> digits = 7 \<or> digits = 8"
  shows "0 \<le> c_rem (truncate_hs hs) (10 ^ unat digits) \<and>
         c_rem (truncate_hs hs) (10 ^ unat digits) < 10 ^ unat digits \<and>
         length (printf_ld (unat digits) (c_rem (truncate_hs hs) (10 ^ unat digits))) = unat digits \<and>
         oath_hotp_generate hmac secret moving_factor digits add_checksum truncation_offset
           \<noteq> Inl OATH_PRINTF_ERROR"
proof -
  have r: "c_rem (truncate_hs hs) (10 ^ unat digits) = int (S_spec hs mod 10 ^ unat digits)"
    by (simp add: truncate_hs_spec [OF assms(2)] c_rem_nonneg zmod_int)
  have "length (printf_ld (unat digits) (int (S_spec hs mod 10 ^ unat digits))) = unat digits"
    using printf_ld_nonneg [of "int (S_spec hs mod 10 ^ unat digits)" "unat digits"]
    by (simp add: length_otp_string_spec)
  moreover have "int (S_spec hs mod 10 ^ unat digits) < 10 ^ unat digits"
    by (simp flip: of_nat_power add: of_nat_less_iff del: of_nat_power)
  ultimately show ?thesis
    using generate_Some [where hmac = hmac and secret = secret, OF assms]
    by (simp add: r)
qed

text \<open>The second test vector of RFC 4226: counter 1, six digits.\<close>

theorem generate_never_printf_error_witness:
  "rfc4226_mac rfc4226_secret (counter_bytes 1) = Some rfc4226_digest_1 \<and>
   length rfc4226_digest_1 = 20 \<and>
   c_rem (truncate_hs rfc4226_digest_1) (10 ^ 6) = 287082 \<and>
   length (printf_ld 6 (c_rem (truncate_hs rfc4226_digest_1) (10 ^ 6))) = 6 \<and>
   oath_hotp_generate rfc4226_mac rfc4226_secret 1 6 False OATH_HOTP_DYNAMIC_TRUNCATION
     \<noteq> Inl OATH_PRINTF_ERROR"
proof -
  have m: "rfc4226_mac rfc4226_secret (counter_bytes 1) = Some rfc4226_digest_1"
    by (simp add: rfc4226_mac_def counter_bytes_1 rfc4226_secret_def)
  have l: "length rfc4226_digest_1 = 20" by (simp add: rfc4226_digest_1_def)
  have t: "c_rem (truncate_hs rfc4226_digest_1) (10 ^ 6) = 287082"
    by (simp add: truncate_hs_spec [OF l] S_spec_digest_1 c_rem_nonneg)
  from generate_never_printf_error [where hmac = rfc4226_mac and secret = rfc4226_secret
      and moving_factor = 1 and add_checksum = False and digits = 6
      and truncation_offset = OATH_HOTP_DYNAMIC_TRUNCATION, OF m l] m l t
  show ?thesis by simp
qed

text \<open>
  Claim C4, as amended. For a window of at most \<open>INT_MAX = 2 ^ 31 - 1\<close> the validator
  tests the counters \<open>start_moving_factor + iter\<close> for \<open>iter = 0, 1, ...\<close> up to \<open>window\<close>
  inclusive, in this order: when the first \<open>k\<close> counters generated OTPs that the
  comparison did not match, then a match at offset \<open>k \<le> window\<close> returns \<open>k\<close>, a
  failing generation at offset \<open>k \<le> window\<close> returns that error, and \<open>window + 1\<close>
  counters without a match return \<open>OATH_INVALID_OTP\<close>. With \<open>window = 0\<close> only the start
  counter is looked at.
\<close>

theorem validate_callback_search:
  assumes "unat window < 2 ^ 31"
  shows "(k \<le> unat window \<and> keeps_searching hmac secret start digits cmp k \<and>
            gen_at hmac secret start digits k = Inr otp \<and> cmp otp = 0
          \<longrightarrow> oath_hotp_validate_callback hmac secret start window digits cmp = Some (Inr (int k))) \<and>
         (k \<le> unat window \<and> keeps_searching hmac secret start digits cmp k \<and>
            gen_at hmac secret start digits k = Inl rc
          \<longrightarrow> oath_hotp_validate_callback hmac secret start window digits cmp = Some (Inl rc)) \<and>
         (keeps_searching hmac secret start digits cmp (Suc (unat window))
          \<longrightarrow> oath_hotp_validate_callback hmac secret start window digits cmp
                = Some (Inl OATH_INVALID_OTP))"
proof (intro conjI impI)
  assume a: "k \<le> unat window \<and> keeps_searching hmac secret start digits cmp k \<and>
            gen_at hmac secret start digits k = Inr otp \<and> cmp otp = 0"
  with assms have k: "k < 2 ^ 31" by simp
  then have "k < 2 ^ 32" by simp
  with a have "oath_hotp_validate_callback hmac secret start window digits cmp =
           Some (Inr (sint (of_nat k :: 32 word)))"
    by (intro validate_loop_match) auto
  with k show "oath_hotp_validate_callback hmac secret start window digits cmp = Some (Inr (int k))"
    by (simp add: sint_of_nat_small)
next
  assume a: "k \<le> unat window \<and> keeps_searching hmac secret start digits cmp k \<and>
            gen_at hmac secret start digits k = Inl rc"
  with assms have "k < 2 ^ 32" by simp
  with a show "oath_hotp_validate_callback hmac secret start window digits cmp = Some (Inl rc)"
    by (intro validate_loop_error) auto
next
  assume "keeps_searching hmac secret start digits cmp (Suc (unat window))"
  moreover from assms have "unat window < 2 ^ 32" by simp
  ultimately show "oath_hotp_validate_callback hmac secret start window digits cmp
                = Some (Inl OATH_INVALID_OTP)"
    by (rule validate_loop_exhausted)
qed

text \<open>
  On the RFC 4226 vectors: the OTP of counter 1 is found at offset 1 of the window 1;
  with the window 3 the failing MAC at counter 3 ends the search with its error; an
  OTP that no counter of the window 1 generates gives \<open>OATH_INVALID_OTP\<close>.
\<close>

theorem validate_callback_search_witness:
  "unat (1 :: 64 word) < 2 ^ 31 \<and> unat (3 :: 64 word) < 2 ^ 31 \<and>
   keeps_searching rfc4226_mac rfc4226_secret 0 6 (strcmp_callback ''287082'') 1 \<and>
   gen_at rfc4226_mac rfc4226_secret 0 6 1 = Inr ''287082'' \<and>
   oath_hotp_validate_callback rfc4226_mac rfc4226_secret 0 1 6 (strcmp_callback ''287082'')
     = Some (Inr 1) \<and>
   keeps_searching rfc4226_mac rfc4226_secret 0 6 (strcmp_callback ''000000'') 3 \<and>
   gen_at rfc4226_mac rfc4226_secret 0 6 3 = Inl OATH_CRYPTO_ERROR \<and>
   oath_hotp_validate_callback rfc4226_mac rfc4226_secret 0 3 6 (strcmp_callback ''000000'')
     = Some (Inl OATH_CRYPTO_ERROR) \<and>
   oath_hotp_validate_callback rfc4226_mac rfc4226_secret 0 1 6 (strcmp_callback ''000000'')
     = Some (Inl OATH_INVALID_OTP)"
proof -
  have w1: "unat (1 :: 64 word) < 2 ^ 31" and w2: "unat (3 :: 64 word) < 2 ^ 31" by simp_all
  have k1: "keeps_searching rfc4226_mac rfc4226_secret 0 6 (strcmp_callback ''287082'') 1"
    using keeps_searching_Suc [of rfc4226_mac rfc4226_secret 0 6 "strcmp_callback ''287082''" 0]
    by (simp add: keeps_searching_0 rfc4226_generate_0 strcmp_callback_eq_0_iff)
  have k2: "keeps_searching rfc4226_mac rfc4226_secret 0 6 (strcmp_callback ''000000'') 2"
    by (simp add: numeral_2_eq_2 keeps_searching_Suc keeps_searching_0 rfc4226_generate_0
        rfc4226_generate_1 strcmp_callback_eq_0_iff)
  have k3: "keeps_searching rfc4226_mac rfc4226_secret 0 6 (strcmp_callback ''000000'') 3"
    using k2 by (simp add: numeral_3_eq_3 numeral_2_eq_2 keeps_searching_Suc keeps_searching_0
        rfc4226_generate_0 rfc4226_generate_1 rfc4226_generate_2 strcmp_callback_eq_0_iff)
  note v1 = validate_callback_search [where hmac = rfc4226_mac and secret = rfc4226_secret
      and start = 0 and digits = 6, OF w1]
  note v2 = validate_callback_search [where hmac = rfc4226_mac and secret = rfc4226_secret
      and start = 0 and digits = 6, OF w2]
  from v1 [of 1 "strcmp_callback ''287082''" "''287082''"] k1
  have a: "oath_hotp_validate_callback rfc4226_mac rfc4226_secret 0 1 6 (strcmp_callback ''287082'')
     = Some (Inr 1)"
    by (simp add: rfc4226_generate_1 strcmp_callback_eq_0_iff)
  from v2 [of 3 "strcmp_callback ''000000''" _ OATH_CRYPTO_ERROR] k3
  have b: "oath_hotp_validate_callback rfc4226_mac rfc4226_secret 0 3 6 (strcmp_callback ''000000'')
     = Some (Inl OATH_CRYPTO_ERROR)"
    by (simp add: rfc4226_generate_3)
  from v1 [of _ "strcmp_callback ''000000''"] k2
  have c: "oath_hotp_validate_callback rfc4226_mac rfc4226_secret 0 1 6 (strcmp_callback ''000000'')
     = Some (Inl OATH_INVALID_OTP)"
    by (simp add: numeral_2_eq_2)
  from w1 w2 k1 k3 a b c show ?thesis
    by (simp add: rfc4226_generate_1 rfc4226_generate_3)
qed

text \<open>
  Claim C4 as stated (every window) fails: \<open>iter\<close> is an \<open>unsigned\<close> returned through
  \<open>int\<close>. With the window \<open>2 ^ 31\<close> and a first match at \<open>iter = 2 ^ 31\<close> the function
  returns \<open>INT_MIN\<close>, a negative value, not the offset.
\<close>

theorem validate_callback_offset_wraps:
  "oath_hotp_validate_callback wrap_mac [] 0 (2 ^ 31) 6 (strcmp_callback ''000001'')
     = Some (Inr (- 2147483648))"
proof -
  have ks: "keeps_searching wrap_mac [] 0 6 (strcmp_callback ''000001'') (2 ^ 31)"
    by (simp add: keeps_searching_def wrap_mac_generate_low strcmp_callback_eq_0_iff)
  have "oath_hotp_validate_callback wrap_mac [] 0 (2 ^ 31) 6 (strcmp_callback ''000001'')
     = Some (Inr (sint (of_nat (2 ^ 31) :: 32 word)))"
    by (rule validate_loop_match [OF ks]) (simp_all add: wrap_mac_generate_high strcmp_callback_eq_0_iff)
  then show ?thesis by simp
qed

text \<open>
  Claim C5, as amended. For a window of at most \<open>2 ^ 31 - 1\<close>, \<open>digits\<close> 6, 7 or 8 and a
  MAC that succeeds on the counters \<open>c, ..., c + window + 1\<close>: validating the OTP
  generated at \<open>c + k\<close>, \<open>k \<le> window\<close>, returns the lowest offset whose OTP is the same
  string; this is \<open>k\<close> when no earlier counter of the window generates it. Validating
  the OTP generated at \<open>c + window + 1\<close> returns \<open>OATH_INVALID_OTP\<close> when no counter of the
  window generates the same string, and the lowest offset that does otherwise.
\<close>

theorem validate_generated_otp:
  assumes "unat window < 2 ^ 31"
    and "digits = 6 \<or> digits = 7 \<or> digits = 8"
    and "\<forall>j\<le>Suc (unat window). \<exists>hs. hmac secret (counter_bytes (c + of_nat j)) = Some hs \<and> length hs = 20"
  shows "(k \<le> unat window \<and> gen_at hmac secret c digits k = Inr otp \<longrightarrow>
            oath_hotp_validate hmac secret c window otp
              = Some (Inr (int (first_match hmac secret c digits otp k))) \<and>
            first_match hmac secret c digits otp k \<le> k \<and>
            ((\<forall>j<k. gen_at hmac secret c digits j \<noteq> Inr otp) \<longrightarrow>
               oath_hotp_validate hmac secret c window otp = Some (Inr (int k)))) \<and>
         (gen_at hmac secret c digits (Suc (unat window)) = Inr otp' \<longrightarrow>
            oath_hotp_validate hmac secret c window otp'
              = (if \<forall>j\<le>unat window. gen_at hmac secret c digits j \<noteq> Inr otp'
                 then Some (Inl OATH_INVALID_OTP)
                 else Some (Inr (int (first_match hmac secret c digits otp' (Suc (unat window)))))))"
proof (intro conjI impI)
  have mac: "\<forall>j\<le>unat window. \<exists>hs. hmac secret (counter_bytes (c + of_nat j)) = Some hs \<and> length hs = 20"
    using assms(3) by auto
  {
    assume a: "k \<le> unat window \<and> gen_at hmac secret c digits k = Inr otp"
    with assms(3) obtain hs where "hmac secret (counter_bytes (c + of_nat k)) = Some hs" "length hs = 20"
      by (meson le_SucI)
    with a assms(2) have l: "length otp = unat digits"
      by (intro generate_length [where hmac = hmac and secret = secret and mf = "c + of_nat k"]) auto
    from a have s: "first_match hmac secret c digits otp (Suc (unat window)) = first_match hmac secret c digits otp k"
      by (intro first_match_stable) auto
    have le: "first_match hmac secret c digits otp k \<le> k" by (rule first_match_le)
    with a validate_first_match [where hmac = hmac and secret = secret, OF assms(1,2) mac l]
    show v: "oath_hotp_validate hmac secret c window otp
              = Some (Inr (int (first_match hmac secret c digits otp k)))"
      by (simp add: s)
    show "first_match hmac secret c digits otp k \<le> k" by (rule le)
    assume "\<forall>j<k. gen_at hmac secret c digits j \<noteq> Inr otp"
    with v show "oath_hotp_validate hmac secret c window otp = Some (Inr (int k))"
      by (simp add: first_match_none)
  }
  assume g: "gen_at hmac secret c digits (Suc (unat window)) = Inr otp'"
  from assms(3) obtain hs where "hmac secret (counter_bytes (c + of_nat (Suc (unat window)))) = Some hs" "length hs = 20"
    by blast
  with g assms(2) have l: "length otp' = unat digits"
    by (intro generate_length [where hmac = hmac and secret = secret
          and mf = "c + of_nat (Suc (unat window))"]) auto
  show "oath_hotp_validate hmac secret c window otp'
      = (if \<forall>j\<le>unat window. gen_at hmac secret c digits j \<noteq> Inr otp'
         then Some (Inl OATH_INVALID_OTP)
         else Some (Inr (int (first_match hmac secret c digits otp' (Suc (unat window))))))"
  proof (cases "\<forall>j\<le>unat window. gen_at hmac secret c digits j \<noteq> Inr otp'")
    case True
    then have "first_match hmac secret c digits otp' (Suc (unat window)) = Suc (unat window)"
      by (intro first_match_none) (simp add: less_Suc_eq_le)
    with True validate_first_match [where hmac = hmac and secret = secret, OF assms(1,2) mac l] show ?thesis by simp
  next
    case False
    then obtain j where j: "j \<le> unat window" "gen_at hmac secret c digits j = Inr otp'" by blast
    then have "first_match hmac secret c digits otp' (Suc (unat window)) = first_match hmac secret c digits otp' j"
      by (intro first_match_stable) auto
    also have "\<dots> \<le> j" by (rule first_match_le)
    finally have "first_match hmac secret c digits otp' (Suc (unat window)) \<le> unat window"
      using j(1) by simp
    with False validate_first_match [where hmac = hmac and secret = secret, OF assms(1,2) mac l] show ?thesis by simp
  qed
qed

text \<open>On the RFC 4226 vectors, with the window 1.\<close>

theorem validate_generated_otp_witness:
  "unat (1 :: 64 word) < 2 ^ 31 \<and>
   gen_at rfc4226_mac rfc4226_secret 0 6 1 = Inr ''287082'' \<and>
   oath_hotp_validate rfc4226_mac rfc4226_secret 0 1 ''287082'' = Some (Inr 1) \<and>
   gen_at rfc4226_mac rfc4226_secret 0 6 (Suc (unat (1 :: 64 word))) = Inr ''359152'' \<and>
   oath_hotp_validate rfc4226_mac rfc4226_secret 0 1 ''359152'' = Some (Inl OATH_INVALID_OTP)"
proof -
  have w: "unat (1 :: 64 word) < 2 ^ 31" by simp
  have m: "\<forall>j\<le>Suc (unat (1 :: 64 word)).
      \<exists>hs. rfc4226_mac rfc4226_secret (counter_bytes (0 + of_nat j)) = Some hs \<and> length hs = 20"
  proof (intro allI impI)
    fix j :: nat assume "j \<le> Suc (unat (1 :: 64 word))"
    then consider "j = 0" | "j = 1" | "j = 2" by fastforce
    then show "\<exists>hs. rfc4226_mac rfc4226_secret (counter_bytes (0 + of_nat j)) = Some hs \<and> length hs = 20"
      by cases (simp_all add: rfc4226_mac_def counter_bytes_0 counter_bytes_1 counter_bytes_2
          rfc4226_digest_0_def rfc4226_digest_1_def rfc4226_digest_2_def)
  qed
  have g1: "gen_at rfc4226_mac rfc4226_secret 0 6 1 = Inr ''287082''"
    by (simp add: rfc4226_generate_1)
  have g2: "gen_at rfc4226_mac rfc4226_secret 0 6 (Suc (unat (1 :: 64 word))) = Inr ''359152''"
    by (simp add: rfc4226_generate_2)
  note v = validate_generated_otp [where hmac = rfc4226_mac and secret = rfc4226_secret
      and c = 0 and digits = 6 and window = 1, OF w _ m]
  from v [of 1 "''287082''"] g1
  have a: "oath_hotp_validate rfc4226_mac rfc4226_secret 0 1 ''287082'' = Some (Inr 1)"
    by (simp add: rfc4226_generate_0 first_match_def upt_rec)
  from v [of _ _ "''359152''"] g2
  have b: "oath_hotp_validate rfc4226_mac rfc4226_secret 0 1 ''359152'' = Some (Inl OATH_INVALID_OTP)"
    by (simp add: le_Suc_eq rfc4226_generate_0 rfc4226_generate_1)
  from w g1 a g2 b show ?thesis by simp
qed

text \<open>
  Claim C5 as stated fails where two counters generate the same OTP: with a MAC of
  constant digest, the OTP generated at \<open>c + 1\<close> is found at offset 0 of the window 1,
  and so is the OTP generated at \<open>c + window + 1\<close>. The constant digest only makes the
  repetition short to write: by \<open>validate_roundtrip_fails_for_every_mac\<close> every MAC, and
  so HMAC-SHA-1, has counters \<open>c\<close> and \<open>c + k\<close> with the same six-digit OTP.
\<close>

theorem validate_generated_otp_collision:
  "oath_hotp_generate zero_mac [] (0 + 1) 6 False OATH_HOTP_DYNAMIC_TRUNCATION = Inr ''000000'' \<and>
   oath_hotp_validate zero_mac [] 0 1 ''000000'' = Some (Inr 0) \<and>
   oath_hotp_generate zero_mac [] (0 + 1 + 1) 6 False OATH_HOTP_DYNAMIC_TRUNCATION = Inr ''000000''"
proof -
  have "oath_hotp_validate_callback zero_mac [] 0 1 6 (strcmp_callback ''000000'')
      = Some (Inr (sint (of_nat 0 :: 32 word)))"
    by (rule validate_loop_match [where otp = "''000000''"])
      (simp_all add: keeps_searching_0 zero_mac_generate strcmp_callback_eq_0_iff)
  then show ?thesis by (simp add: oath_hotp_validate_def zero_mac_generate)
qed

text \<open>
  Claim C10, as amended. \<open>oath_hotp_validate\<close> takes the digit count from the length of the
  presented OTP: for an OTP of fewer than \<open>2 ^ 32\<close> characters whose length is not 6, 7
  or 8, and a MAC that succeeds on the start counter, it returns \<open>OATH_INVALID_DIGITS\<close>,
  for every window, and so never a window offset.
\<close>

theorem validate_length_not_digits:
  assumes "length otp < 2 ^ 32"
    and "length otp \<noteq> 6 \<and> length otp \<noteq> 7 \<and> length otp \<noteq> 8"
    and "hmac secret (counter_bytes start_moving_factor) = Some hs"
  shows "oath_hotp_validate hmac secret start_moving_factor window otp = Some (Inl OATH_INVALID_DIGITS)"
proof -
  define digits :: "32 word" where "digits = of_nat (length otp)"
  have "digits \<noteq> 6" "digits \<noteq> 7" "digits \<noteq> 8"
    using assms(1,2) of_nat_32_inj [of "length otp" 6] of_nat_32_inj [of "length otp" 7]
      of_nat_32_inj [of "length otp" 8]
    by (auto simp: digits_def)
  with assms(3) have "gen_at hmac secret start_moving_factor digits 0 = Inl OATH_INVALID_DIGITS"
    by (simp add: generate_invalid_digits [where hs = hs])
  then have "oath_hotp_validate_callback hmac secret start_moving_factor window digits (strcmp_callback otp)
      = Some (Inl OATH_INVALID_DIGITS)"
    by (intro validate_loop_error [where k = 0]) (simp_all add: keeps_searching_0)
  then show ?thesis by (simp add: oath_hotp_validate_def digits_def)
qed

text \<open>A five-character OTP against the RFC 4226 secret.\<close>

theorem validate_length_not_digits_witness:
  "length ''12345'' < 2 ^ 32 \<and> length ''12345'' \<noteq> 6 \<and>
   rfc4226_mac rfc4226_secret (counter_bytes 0) = Some rfc4226_digest_0 \<and>
   oath_hotp_validate rfc4226_mac rfc4226_secret 0 3 ''12345'' = Some (Inl OATH_INVALID_DIGITS)"
proof -
  have m: "rfc4226_mac rfc4226_secret (counter_bytes 0) = Some rfc4226_digest_0"
    by (simp add: rfc4226_mac_def counter_bytes_0)
  from validate_length_not_digits [where hmac = rfc4226_mac and secret = rfc4226_secret
      and otp = "''12345''" and window = 3, OF _ _ m] m
  show ?thesis by simp
qed

text \<open>
  Claim C10 as stated (every length other than 6, 7, 8) fails: \<open>strlen (otp)\<close> is a
  \<open>size_t\<close> passed for the \<open>unsigned digits\<close>, so a length of \<open>2 ^ 32 + 6\<close> arrives as 6
  digits; the search then runs and ends with \<open>OATH_INVALID_OTP\<close>.
\<close>

theorem validate_long_otp_counterexample:
  "length (replicate 4294967302 (CHR ''0'')) = 4294967302 \<and>
   oath_hotp_validate zero_mac [] 0 0 (replicate 4294967302 (CHR ''0'')) = Some (Inl OATH_INVALID_OTP)"
proof -
  define otp where "otp = replicate 4294967302 (CHR ''0'')"
  have l: "length otp = 4294967302" by (simp add: otp_def)
  have d: "(4294967302 :: 32 word) = 6" by simp
  have ne: "otp \<noteq> ''000000''" using l by auto
  have "keeps_searching zero_mac [] 0 6 (strcmp_callback otp) (Suc (unat (0 :: 64 word)))"
    using ne by (simp add: keeps_searching_Suc keeps_searching_0 zero_mac_generate strcmp_callback_eq_0_iff)
  then have "oath_hotp_validate_callback zero_mac [] 0 0 6 (strcmp_callback otp) = Some (Inl OATH_INVALID_OTP)"
    by (rule validate_loop_exhausted) simp
  then show ?thesis using l by (simp add: oath_hotp_validate_def d flip: otp_def)
qed

section \<open>Proofs for usersfile.c\<close>

subsection \<open>Tokens and numbers\<close>

lemma strtok_strcmp [simp]: "strcmp a b = 0 \<longleftrightarrow> a = b"
  by (rule strcmp_eq_0_iff)

lemma whitespace_simps [simp]:
  "c \<in> set whitespace \<longleftrightarrow> c = CHR 0x20 \<or> c = CHR 0x09 \<or> c = CHR 0x0D \<or> c = CHR 0x0A"
  by (auto simp: whitespace_def)

lemma token_at_None_Suc: "token_at n s = None \<Longrightarrow> token_at (Suc n) s = None"
proof (induction n arbitrary: s)
  case 0
  then show ?case by (simp add: token_at.simps)
next
  case (Suc n)
  then show ?case by (cases "strtok_r s") (auto simp: token_at.simps)
qed

lemma c_str_no_nul: "CHR 0x00 \<notin> set s \<Longrightarrow> c_str s = s"
  by (induction s) (auto simp: c_str_def)

lemma strtoull_Nil: "strtoull [] = (0, [])"
  by (simp add: strtoull_def)


lemma lock_new_neq [simp]:
  "usersfile @ ''.lock'' \<noteq> usersfile" "usersfile @ ''.new'' \<noteq> usersfile"
  "usersfile \<noteq> usersfile @ ''.lock''" "usersfile \<noteq> usersfile @ ''.new''"
  "usersfile @ ''.lock'' \<noteq> usersfile @ ''.new''" "usersfile @ ''.new'' \<noteq> usersfile @ ''.lock''"
  by simp_all


subsection \<open>parse_usersfile\<close>

lemma read_fields_Skip_iff:
  "read_fields env username passwd w lineptr = Skip \<longleftrightarrow> \<not> is_record_line username passwd lineptr"
  by (auto simp: read_fields_def is_record_line_def Let_def
      split: option.splits sum.splits prod.splits if_splits)


lemma read_fields_Fields:
  assumes "read_fields env username passwd w l = Fields r"
  shows "rec_prev_otp r = token_at 5 (c_str l)"
    and "w \<Longrightarrow> rec_last_otp r
           = map_option (\<lambda>ts. mktime env (fst (the (strptime env ts)))) (token_at 6 (c_str l))"
    and "\<not> w \<Longrightarrow> rec_last_otp r = None"
  using assms
  by (auto simp: read_fields_def read_timestamp_def Let_def
      split: option.splits prod.splits sum.splits if_splits)

lemma read_fields_accepted:
  assumes "is_record_line username passwd l"
    and "password_accepted passwd l"
    and "token_at 3 (c_str l) = Some key" and "fst (hotp_hex2bin env key 20) = HOTP_OK"
    and "token_at 4 (c_str l) = Some mf" and "snd (strtoull mf) = []"
    and "timestamp_accepted env w l t"
  shows "\<exists>r. read_fields env username passwd w l = Fields r \<and>
           rec_prev_otp r = token_at 5 (c_str l) \<and> rec_last_otp r = t"
  using assms
  by (auto simp: read_fields_def is_record_line_def password_accepted_def timestamp_accepted_def
      read_moving_factor_def read_timestamp_def Let_def
      split: option.splits prod.splits if_splits)

lemma read_fields_write_ok:
  "read_fields (env\<lparr>write_ok := f\<rparr>) username passwd w l = read_fields env username passwd w l"
  by (auto simp: read_fields_def read_timestamp_def Let_def
      split: option.splits prod.splits sum.splits)

lemma read_fields_fclose_flushed:
  "read_fields (env\<lparr>fclose_flushed := f\<rparr>) username passwd w l = read_fields env username passwd w l"
  by (auto simp: read_fields_def read_timestamp_def Let_def
      split: option.splits prod.splits sum.splits)

lemma parse_usersfile_skip:
  assumes "\<forall>x\<in>set pre. read_fields env username passwd w x = Skip"
  shows "parse_usersfile env username otp window passwd w (pre @ rest)
       = parse_usersfile env username otp window passwd w rest"
  using assms by (induction pre) simp_all

lemma parse_usersfile_stops:
  assumes "read_fields env username passwd w l \<noteq> Skip"
  shows "parse_usersfile env username otp window passwd w (l # post)
       = parse_usersfile env username otp window passwd w [l]"
  using assms by (simp split: line_result.splits sum.splits)

lemma parse_usersfile_unknown:
  assumes "\<forall>x\<in>set lines. read_fields env username passwd w x = Skip"
  shows "parse_usersfile env username otp window passwd w lines = (HOTP_UNKNOWN_USER, None, None)"
  using assms by (induction lines) simp_all



subsection \<open>update_usersfile2 and update_usersfile\<close>


lemma update_usersfile2_written:
  assumes "\<forall>i. write_ok env i"
  shows "update_usersfile2 env username otp ts mf lines n out
       = (HOTP_OK, out @ concat (map (rewrite_line username otp ts mf) lines))"
  using assms
  by (induction lines arbitrary: n out) (auto simp: Let_def rewrite_line_def)

lemma update_usersfile2_rc:
  "fst (update_usersfile2 env username otp ts mf lines n out) \<in> {HOTP_OK, HOTP_PRINTF_ERROR}"
  by (induction lines arbitrary: n out) (auto simp: Let_def)


lemma authenticate_unchanged:
  assumes "hotp_authenticate_usersfile env files usersfile username otp window passwd w
           = (rc, t, files')"
    and "rc \<noteq> HOTP_OK" "rc \<noteq> HOTP_FILE_UNLINK_ERROR" "rc \<noteq> HOTP_PRINTF_ERROR"
  shows "files' usersfile = files usersfile"
proof (cases "files usersfile")
  case None
  with assms(1) show ?thesis by (simp add: hotp_authenticate_usersfile_def)
next
  case (Some content)
  obtain prc t' nmf where p: "parse_usersfile env username otp window passwd w
      (file_lines content) = (prc, t', nmf)"
    by (cases "parse_usersfile env username otp window passwd w (file_lines content)")
  show ?thesis
  proof (cases "prc = HOTP_OK \<and> time_now env \<noteq> - 1 \<and> localtime_r env (time_now env) \<noteq> None
      \<and> length (strftime env (the (localtime_r env (time_now env)))) = 20")
    case False
    with assms(1) Some p show ?thesis
      by (auto simp: hotp_authenticate_usersfile_def Let_def split: if_splits option.splits)
  next
    case True
    then obtain now where now: "localtime_r env (time_now env) = Some now" by auto
    with True assms(1) Some p
    have u: "update_usersfile env files usersfile username otp (file_lines content)
        (strftime env now) (the nmf) = (rc, files')"
      by (auto simp: hotp_authenticate_usersfile_def Let_def split: prod.splits)
    have "fst (update_usersfile2 env username otp (strftime env now) (the nmf)
        (file_lines content) 0 []) \<in> {HOTP_OK, HOTP_PRINTF_ERROR}"
      by (rule update_usersfile2_rc)
    with u assms(2-4) show ?thesis
      by (auto simp: update_usersfile_def Let_def split: if_splits prod.splits)
  qed
qed


subsection \<open>The concrete file\<close>

lemma demo_file_lines: "file_lines demo_content = [demo_comment, demo_alice, demo_bob]"
  by (simp add: demo_content_def demo_comment_def demo_alice_def demo_bob_def)


lemma demo_comment_tokens:
  "token_at 0 (c_str demo_comment) = Some ''#''" "token_at 1 (c_str demo_comment) = Some ''users''"
  "token_at (Suc 0) (c_str demo_comment) = Some ''users''"
  by (simp_all add: demo_comment_def c_str_def strtok_r_def numeral_eq_Suc token_at.simps)

lemma demo_alice_tokens:
  "token_at 0 (c_str demo_alice) = Some ''HOTP''"
  "token_at 1 (c_str demo_alice) = Some ''alice''"
  "token_at (Suc 0) (c_str demo_alice) = Some ''alice''"
  "token_at 2 (c_str demo_alice) = Some ''-''"
  "token_at 3 (c_str demo_alice) = Some ''3132333435363738393031323334353637383930''"
  "token_at 4 (c_str demo_alice) = Some ''1''"
  "token_at 5 (c_str demo_alice) = Some ''287082''"
  "token_at 6 (c_str demo_alice) = Some ''2009-09-30T12:00:00L''"
  by (simp_all add: demo_alice_def c_str_def strtok_r_def numeral_eq_Suc token_at.simps)

lemma demo_bob_tokens:
  "token_at 0 (c_str demo_bob) = Some ''HOTP''"
  "token_at 1 (c_str demo_bob) = Some ''bob''"
  "token_at (Suc 0) (c_str demo_bob) = Some ''bob''"
  "token_at 2 (c_str demo_bob) = Some ''-''"
  "token_at 3 (c_str demo_bob) = Some ''00''"
  by (simp_all add: demo_bob_def c_str_def strtok_r_def numeral_eq_Suc token_at.simps)


lemma demo_short_tokens:
  "token_at 0 (c_str demo_short) = Some ''HOTP''"
  "token_at 1 (c_str demo_short) = Some ''alice''"
  "token_at (Suc 0) (c_str demo_short) = Some ''alice''"
  "token_at 2 (c_str demo_short) = None"
  "token_at 3 (c_str demo_short) = None"
  by (simp_all add: demo_short_def c_str_def strtok_r_def numeral_eq_Suc token_at.simps)

lemma demo_garbage_tokens:
  "token_at 0 (c_str demo_garbage) = Some ''HOTP''"
  "token_at 1 (c_str demo_garbage) = Some ''alice''"
  "token_at (Suc 0) (c_str demo_garbage) = Some ''alice''"
  "token_at 2 (c_str demo_garbage) = Some ''-''"
  "token_at 3 (c_str demo_garbage) = Some ''3132333435363738393031323334353637383930''"
  "token_at 4 (c_str demo_garbage) = Some ''12a''"
  by (simp_all add: demo_garbage_def c_str_def strtok_r_def numeral_eq_Suc token_at.simps)

lemma demo_fresh_tokens:
  "token_at 0 (c_str demo_fresh) = Some ''HOTP''"
  "token_at 1 (c_str demo_fresh) = Some ''alice''"
  "token_at (Suc 0) (c_str demo_fresh) = Some ''alice''"
  "token_at 2 (c_str demo_fresh) = Some ''-''"
  "token_at 3 (c_str demo_fresh) = Some ''3132333435363738393031323334353637383930''"
  "token_at 4 (c_str demo_fresh) = None"
  by (simp_all add: demo_fresh_def c_str_def strtok_r_def numeral_eq_Suc token_at.simps)

lemma demo_blank_tokens: "token_at 0 (c_str demo_blank) = None"
  by (simp add: demo_blank_def c_str_def strtok_r_def token_at.simps)

lemma demo_other_tokens:
  "token_at 0 (c_str demo_other) = Some ''#disabled''"
  "token_at 1 (c_str demo_other) = Some ''alice''"
  "token_at (Suc 0) (c_str demo_other) = Some ''alice''"
  "token_at 2 (c_str demo_other) = Some ''-''"
  "token_at 3 (c_str demo_other) = Some ''00''"
  by (simp_all add: demo_other_def c_str_def strtok_r_def numeral_eq_Suc token_at.simps)

lemma demo_c_str:
  "c_str demo_comment = demo_comment" "c_str demo_alice = demo_alice" "c_str demo_bob = demo_bob"
  by (simp_all add: c_str_no_nul demo_comment_def demo_alice_def demo_bob_def)

lemma demo_strtoull_1: "strtoull ''1'' = (1, [])"
  by (simp add: strtoull_def isspace_def isdigit_def digit_val_def Let_def)


lemma strtoull_12a: "strtoull ''12a'' = (12, ''a'')"
  by (simp add: strtoull_def isspace_def isdigit_def digit_val_def Let_def)



lemma printf_llu_2: "printf_llu 2 = ''2''"
  by (simp add: printf_llu_def digits_of.simps digit_char_simps)

lemma demo_env_simps [simp]:
  "hotp_validate_otp demo_env secret start window otp =
     (if secret = rfc4226_secret \<and> otp = ''359152'' \<and> 1 \<le> unat window
      then Inr 1 else Inl HOTP_INVALID_OTP)"
  "time_now demo_env = 1254355200"
  "localtime_r demo_env t = Some ''2009-10-01T00:00:00L''"
  "strftime demo_env tm = tm"
  "fseek_ok demo_env" "asprintf_lock_ok demo_env" "fopen_lock_ok demo_env" "fcntl_ok demo_env"
  "asprintf_new_ok demo_env" "fopen_new_ok demo_env" "write_ok demo_env n"
  "fclose_flushed demo_env out = length out"
  "rename_ok demo_env" "unlink_ok demo_env"
  by (simp_all add: demo_env_def)

lemma demo_hex2bin:
  "hotp_hex2bin demo_env ''3132333435363738393031323334353637383930'' 20 = (HOTP_OK, rfc4226_secret)"
  by (simp add: demo_env_def)


lemma demo_comment_skip: "read_fields demo_env ''alice'' passwd w demo_comment = Skip"
  by (simp add: read_fields_def Let_def demo_comment_tokens parse_type_def)

lemma demo_bob_skip: "read_fields demo_env ''alice'' passwd w demo_bob = Skip"
  by (simp add: read_fields_def Let_def demo_bob_tokens parse_type_def)

lemma demo_alice_fields:
  "read_fields demo_env ''alice'' None True demo_alice =
     Fields \<lparr> rec_digits = 6, rec_secret = rfc4226_secret, rec_start_moving_factor = 1,
              rec_prev_otp = Some ''287082'', rec_last_otp = Some 1254312000 \<rparr>"
  by (simp add: read_fields_def Let_def demo_alice_tokens parse_type_def demo_env_def
      read_moving_factor_def demo_strtoull_1 read_timestamp_def)


lemma demo_record_lines:
  "\<not> is_record_line ''alice'' None demo_comment"
  "\<not> is_record_line ''alice'' None demo_short"
  "\<not> is_record_line ''alice'' None demo_bob"
  "is_record_line ''alice'' None demo_alice"
  "is_record_line ''alice'' None demo_garbage"
  "is_record_line ''alice'' None demo_fresh"
  by (simp_all add: is_record_line_def demo_comment_tokens demo_short_tokens demo_bob_tokens
      demo_alice_tokens demo_garbage_tokens demo_fresh_tokens parse_type_def)

lemma demo_alice_parse:
  "parse_usersfile demo_env ''alice'' ''359152'' 5 None True [demo_alice]
     = (HOTP_OK, Some 1254312000, Some 2)"
  by (simp add: demo_alice_fields)

lemma demo_rewrite:
  "rewrite_line ''alice'' ''359152'' ''2009-10-01T00:00:00L'' 2 demo_comment = demo_comment"
  "rewrite_line ''alice'' ''359152'' ''2009-10-01T00:00:00L'' 2 demo_alice = demo_alice_after"
  "rewrite_line ''alice'' ''359152'' ''2009-10-01T00:00:00L'' 2 demo_bob = demo_bob"
    apply (simp add: rewrite_line_def demo_comment_tokens)
    apply (simp add: demo_c_str)
   apply (simp add: rewrite_line_def record_line_def demo_alice_tokens printf_llu_2 demo_alice_after_def)
  apply (simp add: rewrite_line_def demo_bob_tokens)
  apply (simp add: demo_c_str)
  done




lemma demo_failing_update:
  "update_usersfile2 (demo_env\<lparr>write_ok := \<lambda>n. n = 0\<rparr>) ''alice'' ''359152''
     ''2009-10-01T00:00:00L'' 2 [demo_comment, demo_alice, demo_bob] 0 []
   = (HOTP_PRINTF_ERROR, demo_comment)"
  apply (simp add: Let_def demo_comment_tokens demo_alice_tokens)
  apply (simp add: demo_c_str)
  done



lemma demo_stale_lines: "file_lines demo_stale = [demo_stale]"
  by (simp add: demo_stale_def)

lemma demo_stale_tokens:
  "token_at 0 (c_str demo_stale) = Some ''HOTP''"
  "token_at 1 (c_str demo_stale) = Some ''alice''"
  "token_at (Suc 0) (c_str demo_stale) = Some ''alice''"
  "token_at 2 (c_str demo_stale) = Some ''-''"
  "token_at 3 (c_str demo_stale) = Some ''3132333435363738393031323334353637383930''"
  "token_at 4 (c_str demo_stale) = Some ''1''"
  "token_at 5 (c_str demo_stale) = Some ''287082''"
  "token_at 6 (c_str demo_stale) = Some ''yesterday''"
  by (simp_all add: demo_stale_def c_str_def strtok_r_def numeral_eq_Suc token_at.simps)

lemma demo_stale_fields:
  "read_fields demo_env ''alice'' None True demo_stale = Fail HOTP_INVALID_TIMESTAMP None"
  by (simp add: read_fields_def Let_def demo_stale_tokens parse_type_def demo_env_def
      read_moving_factor_def demo_strtoull_1 read_timestamp_def)

lemma demo_alice_bad_password:
  "read_fields demo_env ''alice'' (Some ''secret'') True demo_alice = Fail HOTP_BAD_PASSWORD None"
  by (simp add: read_fields_def Let_def demo_alice_tokens parse_type_def)


section \<open>The claims about usersfile.c\<close>

text \<open>
  Claim C1: an authentication that returns an error leaves the credential file as it
  was, a write failure during the rewrite (\<open>HOTP_PRINTF_ERROR\<close>) in particular. The code
  does not do this: \<open>update_usersfile\<close> calls \<open>rename\<close> whatever \<open>update_usersfile2\<close>
  returned. In the run below the first write succeeds and the second fails: the call
  returns \<open>HOTP_PRINTF_ERROR\<close> and the credential file is left with the comment line
  alone, the records of \<open>alice\<close> and \<open>bob\<close> are gone.
\<close>

theorem write_failure_replaces_file:
  "(case hotp_authenticate_usersfile (demo_env\<lparr>write_ok := \<lambda>n. n = 0\<rparr>)
           [''users.oath'' \<mapsto> demo_content] ''users.oath'' ''alice'' ''359152'' 5 None True of
      (rc, t, files') \<Rightarrow> (rc, files' ''users.oath''))
   = (HOTP_PRINTF_ERROR, Some demo_comment)"
  by (simp add: hotp_authenticate_usersfile_def demo_file_lines read_fields_write_ok
      demo_comment_skip demo_alice_fields update_usersfile_def Let_def
      demo_failing_update del: update_usersfile2.simps)

text \<open>
  Claim C2: a successful update replaces exactly one line and reproduces every other
  line, empty lines, lines with unrecognized type tokens and further lines of the same
  username included. The code does not do this: \<open>update_usersfile2\<close> leaves the loop body
  at a line without token before it writes it, and it replaces every line whose second
  token is the username, whatever the type token is. In the run below the blank line is
  not in the output, and the line \<open>#disabled alice - 00 7\<close> has become a record with the
  new counter, OTP and timestamp.
\<close>

theorem update_usersfile2_drops_and_overwrites:
  "update_usersfile2 demo_env ''alice'' ''359152'' ''2009-10-01T00:00:00L'' 2
     [demo_blank, demo_alice, demo_other] 0 []
   = (HOTP_OK, demo_alice_after @ demo_other_after)"
  by (simp add: Let_def demo_blank_tokens demo_alice_tokens demo_other_tokens record_line_def
      printf_llu_2 demo_alice_after_def demo_other_after_def)

text \<open>
  Claim C6, as amended. Let the user's record be the first line that \<open>parse_usersfile\<close>
  does not skip. When it passes the password check, its secret decodes, \<open>strtoull\<close>
  reads its moving factor to the end, its last-OTP field is the presented OTP and its
  timestamp field, if there is one, is accepted, then \<open>hotp_authenticate_usersfile\<close>
  returns \<open>HOTP_REPLAYED_OTP\<close>, hands out the stored timestamp (what \<open>mktime\<close> gives for
  the timestamp field, when the caller asked for it), and leaves every file as it was:
  the stored moving factor is not advanced and nothing is rewritten.
\<close>

theorem replayed_otp:
  assumes "files usersfile = Some content"
    and "file_lines content = pre @ l # post"
    and "\<forall>x\<in>set pre. \<not> is_record_line username passwd x"
    and "is_record_line username passwd l"
    and "password_accepted passwd l"
    and "token_at 3 (c_str l) = Some key" and "fst (hotp_hex2bin env key 20) = HOTP_OK"
    and "token_at 4 (c_str l) = Some mf" and "snd (strtoull mf) = []"
    and "token_at 5 (c_str l) = Some otp"
    and "timestamp_accepted env last_otp_wanted l t"
  shows "hotp_authenticate_usersfile env files usersfile username otp window passwd last_otp_wanted
           = (HOTP_REPLAYED_OTP, t, files)"
proof -
  from read_fields_accepted [OF assms(4-9) assms(11)] assms(10)
  obtain r where r: "read_fields env username passwd last_otp_wanted l = Fields r"
    "rec_prev_otp r = Some otp" "rec_last_otp r = t"
    by auto
  from assms(3) have "\<forall>x\<in>set pre. read_fields env username passwd last_otp_wanted x = Skip"
    by (simp add: read_fields_Skip_iff)
  then have "parse_usersfile env username otp window passwd last_otp_wanted (pre @ l # post)
      = parse_usersfile env username otp window passwd last_otp_wanted (l # post)"
    by (rule parse_usersfile_skip)
  also have "\<dots> = (HOTP_REPLAYED_OTP, t, None)"
    using r by (simp add: strcmp_eq_0_iff)
  finally show ?thesis
    using assms(1,2) by (simp add: hotp_authenticate_usersfile_def)
qed

text \<open>
  The OTP \<open>287082\<close> stored in the record of \<open>alice\<close> is presented again.
\<close>

theorem replayed_otp_witness:
  "file_lines demo_content = [demo_comment] @ demo_alice # [demo_bob] \<and>
   \<not> is_record_line ''alice'' None demo_comment \<and>
   is_record_line ''alice'' None demo_alice \<and>
   password_accepted None demo_alice \<and>
   token_at 3 (c_str demo_alice) = Some ''3132333435363738393031323334353637383930'' \<and>
   fst (hotp_hex2bin demo_env ''3132333435363738393031323334353637383930'' 20) = HOTP_OK \<and>
   token_at 4 (c_str demo_alice) = Some ''1'' \<and> snd (strtoull ''1'') = [] \<and>
   token_at 5 (c_str demo_alice) = Some ''287082'' \<and>
   token_at 6 (c_str demo_alice) = Some ''2009-09-30T12:00:00L'' \<and>
   timestamp_accepted demo_env True demo_alice (Some 1254312000) \<and>
   hotp_authenticate_usersfile demo_env [''users.oath'' \<mapsto> demo_content] ''users.oath''
      ''alice'' ''287082'' 5 None True
    = (HOTP_REPLAYED_OTP, Some 1254312000, [''users.oath'' \<mapsto> demo_content])"
proof -
  have f: "[''users.oath'' \<mapsto> demo_content] ''users.oath'' = Some demo_content" by simp
  have l: "file_lines demo_content = [demo_comment] @ demo_alice # [demo_bob]"
    by (simp add: demo_file_lines)
  have s: "\<forall>x\<in>set [demo_comment]. \<not> is_record_line ''alice'' None x"
    by (simp add: demo_record_lines)
  have p: "password_accepted None demo_alice" by (simp add: password_accepted_def)
  have h: "fst (hotp_hex2bin demo_env ''3132333435363738393031323334353637383930'' 20) = HOTP_OK"
    by (simp add: demo_hex2bin)
  have c: "snd (strtoull ''1'') = []" by (simp add: demo_strtoull_1)
  have ts: "timestamp_accepted demo_env True demo_alice (Some 1254312000)"
    by (simp add: timestamp_accepted_def demo_alice_tokens demo_env_def)
  from replayed_otp [where env = demo_env and files = "[''users.oath'' \<mapsto> demo_content]"
      and username = "''alice''" and passwd = None and window = 5,
      OF f l s demo_record_lines(4) p demo_alice_tokens(5) h demo_alice_tokens(6) c
        demo_alice_tokens(7) ts]
    l p h c ts
  show ?thesis by (simp add: demo_alice_tokens demo_record_lines)
qed

text \<open>
  Claim C6 as stated (every record of the user whose last-OTP field is the presented OTP
  gives \<open>HOTP_REPLAYED_OTP\<close>) fails: the password, the secret, the moving factor and the
  timestamp of the line are all read before the last OTP is compared. The record of
  \<open>alice\<close>, presented with its last OTP and a wrong password, gives \<open>HOTP_BAD_PASSWORD\<close>;
  a record with the timestamp \<open>yesterday\<close>, presented with its last OTP, gives
  \<open>HOTP_INVALID_TIMESTAMP\<close>.
\<close>

theorem replay_not_reported:
  "token_at 1 (c_str demo_alice) = Some ''alice'' \<and>
   token_at 5 (c_str demo_alice) = Some ''287082'' \<and>
   hotp_authenticate_usersfile demo_env [''users.oath'' \<mapsto> demo_content] ''users.oath''
      ''alice'' ''287082'' 5 (Some ''secret'') True
    = (HOTP_BAD_PASSWORD, None, [''users.oath'' \<mapsto> demo_content]) \<and>
   token_at 1 (c_str demo_stale) = Some ''alice'' \<and>
   token_at 5 (c_str demo_stale) = Some ''287082'' \<and>
   hotp_authenticate_usersfile demo_env [''users.oath'' \<mapsto> demo_stale] ''users.oath''
      ''alice'' ''287082'' 5 None True
    = (HOTP_INVALID_TIMESTAMP, None, [''users.oath'' \<mapsto> demo_stale])"
  by (simp add: hotp_authenticate_usersfile_def demo_file_lines demo_stale_lines
      demo_comment_skip demo_alice_bad_password demo_stale_fields demo_alice_tokens
      demo_stale_tokens)




text \<open>
  Claim C8, as amended. The line that decides the result of \<open>parse_usersfile\<close> is the
  first line whose type token is recognized, whose username token is the user's and
  that has a secret token (with a password given: that has a password token, and a
  secret token unless the password token is rejected); the lines before it are skipped
  and the lines after it are not looked at. When the file has no such line the result
  is \<open>HOTP_UNKNOWN_USER\<close>. On such a line whose password check passes and whose secret
  decodes, a moving-factor token that \<open>strtoull\<close> does not consume to its end gives
  \<open>HOTP_INVALID_COUNTER\<close>, and without a moving-factor token the moving factor is 0.
\<close>

theorem parse_usersfile_record:
  "((\<forall>x\<in>set pre. \<not> is_record_line username passwd x) \<and> is_record_line username passwd l \<longrightarrow>
      parse_usersfile env username otp window passwd w (pre @ l # post)
        = parse_usersfile env username otp window passwd w [l]) \<and>
   ((\<forall>x\<in>set lines. \<not> is_record_line username passwd x) \<longrightarrow>
      parse_usersfile env username otp window passwd w lines = (HOTP_UNKNOWN_USER, None, None)) \<and>
   (is_record_line username passwd l \<and> password_accepted passwd l \<and>
    token_at 3 (c_str l) = Some key \<and> fst (hotp_hex2bin env key 20) = HOTP_OK \<longrightarrow>
      (token_at 4 (c_str l) = Some mf \<and> snd (strtoull mf) \<noteq> [] \<longrightarrow>
         parse_usersfile env username otp window passwd w [l] = (HOTP_INVALID_COUNTER, None, None)) \<and>
      (token_at 4 (c_str l) = None \<longrightarrow>
         read_fields env username passwd w l =
           Fields \<lparr> rec_digits = parse_type (the (token_at 0 (c_str l))),
                    rec_secret = snd (hotp_hex2bin env key 20),
                    rec_start_moving_factor = 0, rec_prev_otp = None, rec_last_otp = None \<rparr>))"
proof (intro conjI impI)
  assume a: "(\<forall>x\<in>set pre. \<not> is_record_line username passwd x) \<and> is_record_line username passwd l"
  then have "parse_usersfile env username otp window passwd w (pre @ l # post)
      = parse_usersfile env username otp window passwd w (l # post)"
    by (intro parse_usersfile_skip) (simp add: read_fields_Skip_iff)
  also from a have "\<dots> = parse_usersfile env username otp window passwd w [l]"
    by (intro parse_usersfile_stops) (simp add: read_fields_Skip_iff)
  finally show "parse_usersfile env username otp window passwd w (pre @ l # post)
        = parse_usersfile env username otp window passwd w [l]" .
next
  assume "\<forall>x\<in>set lines. \<not> is_record_line username passwd x"
  then show "parse_usersfile env username otp window passwd w lines = (HOTP_UNKNOWN_USER, None, None)"
    by (intro parse_usersfile_unknown) (simp add: read_fields_Skip_iff)
next
  assume a: "is_record_line username passwd l \<and> password_accepted passwd l \<and>
    token_at 3 (c_str l) = Some key \<and> fst (hotp_hex2bin env key 20) = HOTP_OK"
    and b: "token_at 4 (c_str l) = Some mf \<and> snd (strtoull mf) \<noteq> []"
  from b have "read_moving_factor (token_at 4 (c_str l)) = Inl HOTP_INVALID_COUNTER"
    by (auto simp: read_moving_factor_def strtoull_Nil split: prod.splits)
  with a have "read_fields env username passwd w l = Fail HOTP_INVALID_COUNTER None"
    by (auto simp: read_fields_def is_record_line_def password_accepted_def Let_def
        split: option.splits prod.splits)
  then show "parse_usersfile env username otp window passwd w [l] = (HOTP_INVALID_COUNTER, None, None)"
    by simp
next
  assume a: "is_record_line username passwd l \<and> password_accepted passwd l \<and>
    token_at 3 (c_str l) = Some key \<and> fst (hotp_hex2bin env key 20) = HOTP_OK"
    and b: "token_at 4 (c_str l) = None"
  from b have "token_at 5 (c_str l) = None"
    using token_at_None_Suc [of 4 "c_str l"] by (simp add: eval_nat_numeral)
  then have "token_at 6 (c_str l) = None"
    using token_at_None_Suc [of 5 "c_str l"] by (simp add: eval_nat_numeral)
  with a b \<open>token_at 5 (c_str l) = None\<close>
  show "read_fields env username passwd w l =
           Fields \<lparr> rec_digits = parse_type (the (token_at 0 (c_str l))),
                    rec_secret = snd (hotp_hex2bin env key 20),
                    rec_start_moving_factor = 0, rec_prev_otp = None, rec_last_otp = None \<rparr>"
    by (auto simp: read_fields_def is_record_line_def password_accepted_def Let_def
        read_moving_factor_def read_timestamp_def split: option.splits prod.splits)
qed

text \<open>
  On the concrete lines: the record of \<open>alice\<close> behind a comment and a line without
  secret; a file without a line for \<open>alice\<close>; the counter \<open>12a\<close>; no counter.
\<close>

theorem parse_usersfile_record_witness:
  "\<not> is_record_line ''alice'' None demo_comment \<and> \<not> is_record_line ''alice'' None demo_short \<and>
   is_record_line ''alice'' None demo_alice \<and>
   parse_usersfile demo_env ''alice'' ''359152'' 5 None True
     ([demo_comment, demo_short] @ demo_alice # [demo_bob]) = (HOTP_OK, Some 1254312000, Some 2) \<and>
   \<not> is_record_line ''alice'' None demo_bob \<and>
   parse_usersfile demo_env ''alice'' ''359152'' 5 None True [demo_comment, demo_bob]
     = (HOTP_UNKNOWN_USER, None, None) \<and>
   is_record_line ''alice'' None demo_garbage \<and> password_accepted None demo_garbage \<and>
   token_at 4 (c_str demo_garbage) = Some ''12a'' \<and> snd (strtoull ''12a'') \<noteq> [] \<and>
   parse_usersfile demo_env ''alice'' ''359152'' 5 None True [demo_garbage]
     = (HOTP_INVALID_COUNTER, None, None) \<and>
   is_record_line ''alice'' None demo_fresh \<and> token_at 4 (c_str demo_fresh) = None \<and>
   read_fields demo_env ''alice'' None True demo_fresh =
     Fields \<lparr> rec_digits = 6, rec_secret = rfc4226_secret, rec_start_moving_factor = 0,
              rec_prev_otp = None, rec_last_otp = None \<rparr>"
proof -
  note t = parse_usersfile_record [where env = demo_env and username = "''alice''"
      and passwd = None and otp = "''359152''" and window = 5 and w = True
      and key = "''3132333435363738393031323334353637383930''"]
  have s1: "\<forall>x\<in>set [demo_comment, demo_short]. \<not> is_record_line ''alice'' None x"
    and s2: "\<forall>x\<in>set [demo_comment, demo_bob]. \<not> is_record_line ''alice'' None x"
    by (simp_all add: demo_record_lines)
  have pa: "password_accepted None demo_garbage" "password_accepted None demo_fresh"
    by (simp_all add: password_accepted_def)
  have g: "snd (strtoull ''12a'') \<noteq> []" by (simp add: strtoull_12a)
  from t [of "[demo_comment, demo_short]" demo_alice "[demo_bob]", THEN conjunct1] s1
  have a: "parse_usersfile demo_env ''alice'' ''359152'' 5 None True
     ([demo_comment, demo_short] @ demo_alice # [demo_bob]) = (HOTP_OK, Some 1254312000, Some 2)"
    by (simp only: demo_record_lines demo_alice_parse simp_thms)
  from t [of _ _ _ "[demo_comment, demo_bob]", THEN conjunct2, THEN conjunct1] s2
  have b: "parse_usersfile demo_env ''alice'' ''359152'' 5 None True [demo_comment, demo_bob]
     = (HOTP_UNKNOWN_USER, None, None)"
    by simp
  from t [of _ demo_garbage _ _ "''12a''", THEN conjunct2, THEN conjunct2] pa g
  have c: "parse_usersfile demo_env ''alice'' ''359152'' 5 None True [demo_garbage]
     = (HOTP_INVALID_COUNTER, None, None)"
    by (simp only: demo_record_lines demo_garbage_tokens demo_hex2bin fst_conv simp_thms)
  from t [of _ demo_fresh, THEN conjunct2, THEN conjunct2] pa
  have d: "read_fields demo_env ''alice'' None True demo_fresh =
     Fields \<lparr> rec_digits = 6, rec_secret = rfc4226_secret, rec_start_moving_factor = 0,
              rec_prev_otp = None, rec_last_otp = None \<rparr>"
    by (simp add: demo_record_lines demo_fresh_tokens demo_hex2bin parse_type_def)
  from s1 s2 a b c d pa g show ?thesis
    by (simp only: demo_record_lines demo_garbage_tokens demo_fresh_tokens simp_thms)
qed

text \<open>
  Claim C8 as stated (the record is the first line with a recognized type token and the
  user's name) fails: the line \<open>HOTP alice\<close> passes both tests, but it has no secret token
  and the loop goes on; alone it gives \<open>HOTP_UNKNOWN_USER\<close>, and before the record of
  \<open>alice\<close> it is passed over and that record is used.
\<close>

theorem line_without_secret_is_skipped:
  "(case token_at 0 (c_str demo_short) of None \<Rightarrow> False | Some ty \<Rightarrow> parse_type ty \<noteq> 0) \<and>
   token_at 1 (c_str demo_short) = Some ''alice'' \<and>
   parse_usersfile demo_env ''alice'' ''359152'' 5 None True [demo_short]
     = (HOTP_UNKNOWN_USER, None, None) \<and>
   parse_usersfile demo_env ''alice'' ''359152'' 5 None True [demo_short, demo_alice]
     = (HOTP_OK, Some 1254312000, Some 2)"
proof -
  have "read_fields demo_env ''alice'' None True demo_short = Skip"
    by (simp add: read_fields_Skip_iff demo_record_lines)
  then show ?thesis
    by (simp add: demo_short_tokens parse_type_def demo_alice_fields)
qed

section \<open>Further properties\<close>

text \<open>
  When every write succeeds, \<open>update_usersfile2\<close> returns \<open>HOTP_OK\<close> and its output is,
  line by line in the order of the input: nothing for a line without a token, the
  formatted record for every line whose second token is the user name, and the line as
  read for every other line; a line of the last kind that holds no NUL byte is copied
  unchanged.
\<close>

theorem rewrite_of_every_line:
  assumes "\<forall>i. write_ok env i"
  shows "update_usersfile2 env username otp timestamp new_moving_factor lines 0 []
           = (HOTP_OK, concat (map (rewrite_line username otp timestamp new_moving_factor) lines)) \<and>
         (\<forall>l\<in>set lines. CHR 0x00 \<notin> set l \<and> token_at 0 (c_str l) \<noteq> None \<and>
              token_at 1 (c_str l) \<noteq> Some username
            \<longrightarrow> rewrite_line username otp timestamp new_moving_factor l = l)"
proof
  show "update_usersfile2 env username otp timestamp new_moving_factor lines 0 []
           = (HOTP_OK, concat (map (rewrite_line username otp timestamp new_moving_factor) lines))"
    using update_usersfile2_written [OF assms, of username otp timestamp new_moving_factor lines 0 "[]"]
    by simp
next
  show "\<forall>l\<in>set lines. CHR 0x00 \<notin> set l \<and> token_at 0 (c_str l) \<noteq> None \<and>
              token_at 1 (c_str l) \<noteq> Some username
            \<longrightarrow> rewrite_line username otp timestamp new_moving_factor l = l"
    by (auto simp: rewrite_line_def c_str_no_nul)
qed

text \<open>
  The three-line file, rewritten for \<open>alice\<close>.
\<close>

theorem rewrite_of_every_line_witness:
  "(\<forall>i. write_ok demo_env i) \<and>
   update_usersfile2 demo_env ''alice'' ''359152'' ''2009-10-01T00:00:00L'' 2
     [demo_comment, demo_alice, demo_bob] 0 []
     = (HOTP_OK, demo_comment @ demo_alice_after @ demo_bob)"
proof -
  have w: "\<forall>i. write_ok demo_env i" by simp
  from rewrite_of_every_line [OF w, of "''alice''" "''359152''" "''2009-10-01T00:00:00L''" 2
      "[demo_comment, demo_alice, demo_bob]", THEN conjunct1] w
  show ?thesis by (simp add: demo_rewrite del: update_usersfile2.simps)
qed

text \<open>
  A call of \<open>hotp_authenticate_usersfile\<close> that returns a code other than \<open>HOTP_OK\<close>,
  \<open>HOTP_PRINTF_ERROR\<close> and \<open>HOTP_FILE_UNLINK_ERROR\<close> leaves the content of the credential
  file as it was.
\<close>

theorem failed_authentication_keeps_file:
  assumes "hotp_authenticate_usersfile env files usersfile username otp window passwd last_otp_wanted
           = (rc, t, files')"
    and "rc \<noteq> HOTP_OK" and "rc \<noteq> HOTP_FILE_UNLINK_ERROR" and "rc \<noteq> HOTP_PRINTF_ERROR"
  shows "files' usersfile = files usersfile"
  using assms by (rule authenticate_unchanged)

text \<open>
  A wrong OTP for \<open>alice\<close>.
\<close>

theorem failed_authentication_keeps_file_witness:
  "hotp_authenticate_usersfile demo_env [''users.oath'' \<mapsto> demo_content] ''users.oath''
      ''alice'' ''000000'' 5 None True
     = (HOTP_INVALID_OTP, Some 1254312000, [''users.oath'' \<mapsto> demo_content]) \<and>
   [''users.oath'' \<mapsto> demo_content] ''users.oath'' = Some demo_content"
proof -
  have r: "hotp_authenticate_usersfile demo_env [''users.oath'' \<mapsto> demo_content] ''users.oath''
      ''alice'' ''000000'' 5 None True
     = (HOTP_INVALID_OTP, Some 1254312000, [''users.oath'' \<mapsto> demo_content])"
    by (simp add: hotp_authenticate_usersfile_def demo_file_lines demo_comment_skip demo_alice_fields)
  from failed_authentication_keeps_file [OF r] r show ?thesis by simp
qed

text \<open>
  Whatever the MAC, provided it succeeds with 20 bytes on the secret: there are a
  counter \<open>c\<close>, an offset \<open>k > 0\<close> and a window of less than \<open>2 ^ 31\<close> holding \<open>k\<close> such
  that the 6-digit OTP generated at \<open>c + k\<close> validates from \<open>c\<close> at offset 0: more counters
  than 6-digit strings.
\<close>

theorem every_mac_repeats_an_otp:
  assumes "\<forall>msg. \<exists>hs. hmac secret msg = Some hs \<and> length hs = 20"
  shows "\<exists>c k window otp. 0 < k \<and> k \<le> unat window \<and> unat window < 2 ^ 31 \<and>
           oath_hotp_generate hmac secret (c + of_nat k) 6 False OATH_HOTP_DYNAMIC_TRUNCATION = Inr otp \<and>
           oath_hotp_validate hmac secret c window otp = Some (Inr 0)"
proof -
  from assms have "\<And>msg. \<exists>hs. hmac secret msg = Some hs \<and> length hs = 20" by blast
  from validate_roundtrip_fails_for_every_mac [where hmac = hmac and secret = secret, OF this]
  show ?thesis by blast
qed

text \<open>
  The MAC that returns twenty zero bytes.
\<close>

theorem every_mac_repeats_an_otp_witness:
  "(\<forall>msg. \<exists>hs. zero_mac [] msg = Some hs \<and> length hs = 20) \<and>
   (\<exists>c k window otp. 0 < k \<and> k \<le> unat window \<and> unat window < 2 ^ 31 \<and>
           oath_hotp_generate zero_mac [] (c + of_nat k) 6 False OATH_HOTP_DYNAMIC_TRUNCATION = Inr otp \<and>
           oath_hotp_validate zero_mac [] c window otp = Some (Inr 0))"
proof -
  have m: "\<forall>msg. \<exists>hs. zero_mac [] msg = Some hs \<and> length hs = 20"
    by (simp add: zero_mac_def)
  from every_mac_repeats_an_otp [where hmac = zero_mac and secret = "[]", OF m] m
  show ?thesis by blast
qed

text \<open>
  The message given to the MAC is the counter in 8 bytes, most significant byte first.
\<close>

theorem counter_bytes_big_endian:
  assumes "i < 8"
  shows "length (counter_bytes moving_factor) = 8 \<and>
         unat (counter_bytes moving_factor ! i) = unat moving_factor div 2 ^ (8 * (7 - i)) mod 256"
  using counter_bytes_nth [OF assms, of moving_factor] by (simp add: counter_bytes_def)

text \<open>
  Counter 258: the last two bytes are 1 and 2.
\<close>

theorem counter_bytes_big_endian_witness:
  "(7 :: nat) < 8 \<and> unat (counter_bytes 258 ! 7) = 2 \<and> unat (counter_bytes 258 ! 6) = 1"
  using counter_bytes_big_endian [of 7 258] counter_bytes_big_endian [of 6 258] by simp

text \<open>
  The loop of \<open>oath_hotp_validate_callback\<close> compares the 32-bit \<open>iter\<close> with the 64-bit
  \<open>window\<close>: for a window of \<open>2 ^ 32\<close> or more, when every counter generates an OTP and
  none matches, \<open>window - iter\<close> is never zero and the function does not return.
\<close>

theorem wide_window_never_returns:
  assumes "\<forall>c. \<exists>otp. oath_hotp_generate hmac secret c digits False OATH_HOTP_DYNAMIC_TRUNCATION = Inr otp
                  \<and> oath_strcmp otp \<noteq> 0"
    and "2 ^ 32 \<le> unat window"
  shows "oath_hotp_validate_callback hmac secret start_moving_factor window digits oath_strcmp = None"
proof -
  from assms(1) have "\<And>c. \<exists>otp. oath_hotp_generate hmac secret c digits False
      OATH_HOTP_DYNAMIC_TRUNCATION = Inr otp \<and> oath_strcmp otp \<noteq> 0" by blast
  from validate_loop_diverges [where hmac = hmac and secret = secret, OF this assms(2)]
  show ?thesis by (simp add: oath_hotp_validate_callback_def)
qed

text \<open>
  A window of \<open>2 ^ 32\<close>, a MAC whose every OTP is \<open>000000\<close>, and the OTP \<open>000001\<close>.
\<close>

theorem wide_window_never_returns_witness:
  "(2 :: nat) ^ 32 \<le> unat (2 ^ 32 :: 64 word) \<and>
   oath_hotp_validate_callback zero_mac [] 0 (2 ^ 32) 6 (strcmp_callback ''000001'') = None"
proof -
  have g: "\<forall>c. \<exists>otp. oath_hotp_generate zero_mac [] c 6 False OATH_HOTP_DYNAMIC_TRUNCATION = Inr otp
                  \<and> strcmp_callback ''000001'' otp \<noteq> 0"
    by (simp add: zero_mac_generate strcmp_callback_eq_0_iff)
  have w: "(2 :: nat) ^ 32 \<le> unat (2 ^ 32 :: 64 word)" by simp
  from wide_window_never_returns [where hmac = zero_mac and secret = "[]" and digits = 6, OF g w] w
  show ?thesis by simp
qed

text \<open>
  \<open>update_usersfile\<close> does not look at the result of \<open>fclose (outfh)\<close> before it renames
  the new file: when nothing of the buffered output reaches the file, every write having
  returned a positive value, the call returns \<open>HOTP_OK\<close> and the credential file is empty.
\<close>

theorem unflushed_rewrite_returns_ok:
  "(case hotp_authenticate_usersfile (demo_env\<lparr>fclose_flushed := \<lambda>out. 0\<rparr>)
           [''users.oath'' \<mapsto> demo_content] ''users.oath'' ''alice'' ''359152'' 5 None True of
      (rc, t, files') \<Rightarrow> (rc, files' ''users.oath''))
   = (HOTP_OK, Some [])"
proof -
  have "update_usersfile2 (demo_env\<lparr>fclose_flushed := \<lambda>out. 0\<rparr>) ''alice'' ''359152''
     ''2009-10-01T00:00:00L'' 2 [demo_comment, demo_alice, demo_bob] 0 []
   = (HOTP_OK, demo_comment @ demo_alice_after @ demo_bob)"
    using update_usersfile2_written [of "demo_env\<lparr>fclose_flushed := \<lambda>out. 0\<rparr>" "''alice''"
        "''359152''" "''2009-10-01T00:00:00L''" 2 "[demo_comment, demo_alice, demo_bob]" 0 "[]"]
    by (simp add: demo_rewrite del: update_usersfile2.simps)
  then show ?thesis
    by (simp add: hotp_authenticate_usersfile_def demo_file_lines read_fields_fclose_flushed
        demo_comment_skip demo_alice_fields update_usersfile_def Let_def
        del: update_usersfile2.simps)
qed

end
